theory Spec2Isabelle
  imports Main "HOL-Library.Sublist"
begin

section \<open>Python values, exceptions and strings\<close>

text \<open>
  Strings are lists of 8-bit characters: the Python strings over code points below 256,
  one \<^typ>\<open>char\<close> per code point. Values that cross the boundary of the program (decoded
  JSON, table cells, dictionary entries) are \<open>pyobj\<close>s; a dictionary is an association
  list in insertion order. A float is carried by its printed form, the development never
  computes with one.
\<close>

datatype pyobj =
    PNone
  | PBool bool
  | PInt int
  | PFloat string
  | PStr string
  | PList "pyobj list"
  | PDict "(string \<times> pyobj) list"

text \<open>
  Exceptions, as far as the handlers of the program tell them apart. Every constructor but
  \<open>NonException\<close> is a class derived from \<open>Exception\<close>; \<open>NonException\<close> stands for the
  classes derived from \<open>BaseException\<close> only (\<open>KeyboardInterrupt\<close>, \<open>SystemExit\<close>).
  Every constructor carries \<open>str(e)\<close>, the text that the handlers of \<open>classify_report\<close>
  put into their result: the message for most classes, the \<open>repr\<close> of the key for a
  \<open>KeyError\<close> raised with a key.
\<close>

datatype exn =
    JSONDecodeError string
  | IndexError string
  | AttributeError string
  | ValueError string
  | KeyError string
  | UnboundLocalError string
  | OtherException string
  | NonException string

fun is_JSONDecodeError :: "exn \<Rightarrow> bool" where
  "is_JSONDecodeError (JSONDecodeError m) = True"
| "is_JSONDecodeError e = False"

fun is_Exception :: "exn \<Rightarrow> bool" where
  "is_Exception (NonException m) = False"
| "is_Exception e = True"

text \<open>\<open>str(e)\<close>: the text the exception carries.\<close>

fun str_exn :: "exn \<Rightarrow> string" where
  "str_exn (JSONDecodeError m) = m"
| "str_exn (IndexError m) = m"
| "str_exn (AttributeError m) = m"
| "str_exn (ValueError m) = m"
| "str_exn (KeyError m) = m"
| "str_exn (UnboundLocalError m) = m"
| "str_exn (OtherException m) = m"
| "str_exn (NonException m) = m"

text \<open>
  \<open>repr(s)\<close> of a string: single quotes, or double quotes when \<open>s\<close> has a single and no
  double quote; the quote in use and the backslash are escaped, tab, newline and carriage
  return are written as a backslash and \<open>t\<close>, \<open>n\<close>, \<open>r\<close>, and every other character that is not
  printable (below 32, 127 to 160, 173) is written as a backslash, \<open>x\<close> and two hexadecimal digits.
\<close>

definition hex_digit :: "nat \<Rightarrow> char" where
  "hex_digit n = ''0123456789abcdef'' ! (n mod 16)"

definition escape_char :: "char \<Rightarrow> char \<Rightarrow> string" where
  "escape_char q c =
     (let n = (of_char c :: nat) in
      if c = q \<or> c = CHR 0x5C then [CHR 0x5C, c]
      else if c = CHR 0x09 then [CHR 0x5C, CHR ''t'']
      else if c = CHR 0x0A then [CHR 0x5C, CHR ''n'']
      else if c = CHR 0x0D then [CHR 0x5C, CHR ''r'']
      else if n < 32 \<or> (127 \<le> n \<and> n \<le> 160) \<or> n = 173
        then [CHR 0x5C, CHR ''x'', hex_digit (n div 16), hex_digit n]
      else [c])"

definition py_repr :: "string \<Rightarrow> string" where
  "py_repr s =
     (let q = (if CHR 0x27 \<in> set s \<and> CHR 0x22 \<notin> set s then CHR 0x22 else CHR 0x27)
      in q # concat (map (escape_char q) s) @ [q])"

definition bind_exn :: "exn + 'a \<Rightarrow> ('a \<Rightarrow> exn + 'b) \<Rightarrow> exn + 'b" where
  "bind_exn x f = (case x of Inl e \<Rightarrow> Inl e | Inr v \<Rightarrow> f v)"

text \<open>\<open>xs[i]\<close> for a non-negative literal index: \<open>IndexError\<close> out of range.\<close>

definition py_index :: "'a list \<Rightarrow> nat \<Rightarrow> exn + 'a" where
  "py_index xs i =
     (if i < length xs then Inr (xs ! i) else Inl (IndexError ''list index out of range''))"

text \<open>\<open>d.get(k, default)\<close> on a dictionary.\<close>

definition dict_get :: "(string \<times> pyobj) list \<Rightarrow> string \<Rightarrow> pyobj \<Rightarrow> pyobj" where
  "dict_get d k dflt = (case map_of d k of Some v \<Rightarrow> v | None \<Rightarrow> dflt)"

text \<open>
  \<open>str.isspace\<close> on one character, which is also the class \<open>\s\<close> of \<open>re\<close> on \<open>str\<close>
  patterns: below 256 the white space is 9 to 13, 28 to 32, 133 and 160.
\<close>

definition isspace :: "char \<Rightarrow> bool" where
  "isspace c \<longleftrightarrow>
     c \<in> set [CHR 0x09, CHR 0x0A, CHR 0x0B, CHR 0x0C, CHR 0x0D,
              CHR 0x1C, CHR 0x1D, CHR 0x1E, CHR 0x1F, CHR 0x20, CHR 0x85, CHR 0xA0]"

definition lstrip :: "string \<Rightarrow> string" where
  "lstrip s = dropWhile isspace s"

definition rstrip :: "string \<Rightarrow> string" where
  "rstrip s = rev (dropWhile isspace (rev s))"

definition strip :: "string \<Rightarrow> string" where
  "strip s = rstrip (lstrip s)"

text \<open>\<open>sub in s\<close>: \<open>sub\<close> occurs in \<open>s\<close>.\<close>

fun contains :: "string \<Rightarrow> string \<Rightarrow> bool" where
  "contains sub [] = (sub = [])"
| "contains sub (c # cs) = (prefix sub (c # cs) \<or> contains sub cs)"

text \<open>
  \<open>cut sep s\<close> finds the first (leftmost) occurrence of \<open>sep\<close> in \<open>s\<close> and returns what
  is before it and what is after it.
\<close>

fun cut :: "string \<Rightarrow> string \<Rightarrow> (string \<times> string) option" where
  "cut sep [] = (if sep = [] then Some ([], []) else None)"
| "cut sep (c # cs) =
     (if prefix sep (c # cs) then Some ([], drop (length sep) (c # cs))
      else map_option (\<lambda>(b, a). (c # b, a)) (cut sep cs))"

lemma cut_shorter:
  "cut sep s = Some (b, a) \<Longrightarrow> sep \<noteq> [] \<Longrightarrow> length a < length s"
proof (induction s arbitrary: b)
  case Nil
  then show ?case by simp
next
  case (Cons c cs)
  show ?case
  proof (cases "prefix sep (c # cs)")
    case True
    with Cons.prems show ?thesis by (cases sep) auto
  next
    case False
    with Cons.prems obtain b' where "cut sep cs = Some (b', a)"
      by (auto split: prod.splits)
    from Cons.IH [OF this Cons.prems(2)] show ?thesis by simp
  qed
qed

text \<open>
  \<open>s.split(sep)\<close>: the pieces between successive non-overlapping occurrences of \<open>sep\<close>,
  found from the left; an empty separator raises \<open>ValueError\<close>.
\<close>

function pieces :: "string \<Rightarrow> string \<Rightarrow> string list" where
  "pieces sep s =
     (if sep = [] then [s]
      else case cut sep s of None \<Rightarrow> [s] | Some (b, a) \<Rightarrow> b # pieces sep a)"
  by pat_completeness auto
termination
  by (relation "measure (\<lambda>(sep, s). length s)") (auto dest: cut_shorter)

declare pieces.simps [simp del]

definition py_split :: "string \<Rightarrow> string \<Rightarrow> exn + string list" where
  "py_split s sep = (if sep = [] then Inl (ValueError ''empty separator'') else Inr (pieces sep s))"

text \<open>\<open>sep.join(xs)\<close>.\<close>

fun py_join :: "string \<Rightarrow> string list \<Rightarrow> string" where
  "py_join sep [] = []"
| "py_join sep [x] = x"
| "py_join sep (x # y # ys) = x @ sep @ py_join sep (y # ys)"

section \<open>The classification client\<close>

text \<open>
  The two external collaborators of \<open>classify_report\<close> are parameters of the model.

  The transport is \<open>self.client.chat.completions.create\<close>. One call either raises or
  returns a response, of which the program reads \<open>response.choices[i].message.content\<close>
  only: a response is the list of these contents, \<open>None\<close> where a message has no
  content. A transport is a function of the number of calls made before and of the
  request, so that every sequence of behaviours is one transport.

  The decoder is \<open>json.loads\<close>: it returns the decoded value or raises.
\<close>

datatype outcome = Raises exn | Responds "string option list"

record request =
  model :: string
  messages :: "(string \<times> string) list"
  temperature :: string

type_synonym transport = "nat \<Rightarrow> request \<Rightarrow> outcome"

type_synonym decoder = "string \<Rightarrow> exn + pyobj"

record classifier =
  api_key :: string
  self_model :: string
  formatted_examples :: string

definition SYSTEM_PROMPT :: string where
  \<open>SYSTEM_PROMPT =
     ''\<newline>'' @
     ''You are an expert medical engineering assistant who specializes in LINAC system troubleshooting.\<newline>'' @
     ''\<newline>'' @
     ''Your job is to review the subject and description of LINAC failure reports and classify each report into one or more Failure Types.\<newline>'' @
     ''\<newline>'' @
     ''Return your result in JSON format only with key: `failure_type` and value: category (or comma-separated categories) like:\<newline>'' @
     ''{\<newline>'' @
     ''  "failure_type": "Imaging System (KV/MV)"\<newline>'' @
     ''}\<newline>'' @
     ''\<newline>'' @
     ''### Failure Type Categories:\<newline>'' @
     ''\<newline>'' @
     ''- "Beam Generation": Components responsible for creating, accelerating, and bending the initial electron beam, including the electron gun, linear accelerator, bending magnet, and RF power source (Klystron/Magnetron).\<newline>'' @
     ''- "Collimation System": Systems that define the final shape of the radiation beam, including primary jaws, multi-leaf collimator (MLC), target carousel, and flattening filters/scattering foils.\<newline>'' @
     ''- "Gantry Motion/Structure": The mechanical system responsible for rotating the gantry, including drive motors, bearings, position sensors (resolvers/encoders), and the structural frame.\<newline>'' @
     ''- "Imaging System (KV/MV)": Hardware used for patient setup and verification imaging, including the kV X-ray source, kV flat-panel detector, MV electronic portal imaging device (EPID), and associated retractable arms.\<newline>'' @
     ''- "Treatment Couch": The patient support system, including its motorized axes (longitudinal, lateral, vertical, rotation, pitch, roll), control pendants, and structural components.\<newline>'' @
     ''- "Control Hardware": The distributed network of physical electronic controllers (Supervisor, Nodes), processing boards, and safety interlock circuit hardware managing machine operations.\<newline>'' @
     ''- "System Networks": Communication infrastructure connecting system components, including CAN bus, Ethernet networks, HSSB, and associated wiring/connectors.\<newline>'' @
     ''- "Cooling System": Systems managing the thermal environment of critical components, primarily the water cooling system (chiller, pumps, flow sensors) and specialized gas systems (e.g., SF6 for waveguide).\<newline>'' @
     ''- "Power System/Distribution": Components managing the input and distribution of electrical power, including the modulator cabinet, main breakers, high-voltage circuits, uninterruptible power supply (UPS), and power conditioning.\<newline>'' @
     ''- "Ancillary Room Systems": Supporting equipment within the treatment room, such as positioning lasers, in-room cameras (CCTV/Optical Guidance), and room monitors.\<newline>'' @
     ''- "Safety Systems": Components specifically designed for personnel and equipment safety, such as emergency stop buttons, door interlocks, collision detection sensors, and radiation monitoring systems.\<newline>'' @
     ''- "Operator Console/UI": User interface systems, display monitors, control pendants, and software interface components.\<newline>'' @
     ''\<newline>'' @
     ''Each report can have multiple labels separated by comma. Your output must always be in dictionary format with key: `failure_type`.\<newline>'' @
     ''\<newline>'' @
     ''Think carefully step by step and analyze the report content logically before classifying.\<newline>''\<close>

definition EXAMPLES :: "(string \<times> string \<times> string) list" where
  \<open>EXAMPLES =
     [(''GFIL, down'',
       ''Customer is getting intermittent GFIL interlock and high vacuum activity in the electron gun. 6e energy will not run at selected dose rate. Inspected hot deck and cold deck in the gantry, downloaded gun controller parameters from the gun controller using boardman. Noted unusually high values for the grid voltage for all energies, and HV settings incorrect. Reprogrammed gun controller with grid and HV values from their other machine. Performed basic beam tuning for all energies, verified operation all energies. Observed site physics perform their QA procedure, site resumed treating patients.'',
       ''Beam Generation''),
      (''MLC is failing and secondary feedback'',
       ''Friday 6-29-2012: MLC down upon arrival, MLC fault #420220 leaf B20 trajectory deviation R/O = 66.56cm. Replaced the leaf motor, swapped the SFB PCB & Head Transceiver/Motor Driver PCB\'s (no help). As t/s ordered NFO parts ... SoftPot Iso Crg-B & Crg-B Motor I/C PCB. Saturday 6-30-2012: NFO parts pick-up Chicago O\'Hare airport. Assembled MLC & verified original problem MLC fault #420220. Shutdown MLC power supply & rebooted Collimator Node ... then power MLC & successfully initialized. Ran MLC autocycle & successfully initialized MLC at gantry zero & 180 (multiple times). Could not successfully initialize the Y-Jaws due to Y1 over-current fault #415007. Verified both Jaw outer Limits & Inner Limits. Found during jaw initialization process that the jaws would come together physically & Y1 would draw high current. Made slight adjustment to the collision switch position & successfully initialized jaws. Completed Jaw Calibration (internal) and saved configuration.'',
       ''Collimation System''),
      (''Installed floating monitor arms.'',
       ''Mounted 4 Linac control monitors on the floating arms. Same configuration as Trilogy'',
       ''Operator Console/UI'')]\<close>

text \<open>\<open>_format_examples\<close>: the template filled with each example, joined by newlines.\<close>

definition format_example :: "string \<times> string \<times> string \<Rightarrow> string" where
  "format_example ex =
     (case ex of (subject, description, failure_type) \<Rightarrow>
        ''**Example report**\<newline>Subject: '' @ subject @
        ''\<newline>Description: '' @ description @
        ''\<newline>Failure Type: '' @ failure_type @ ''\<newline>'')"

definition format_examples :: string where
  "format_examples = py_join ''\<newline>'' (map format_example EXAMPLES)"

text \<open>
  \<open>__init__\<close>: \<open>key\<close> is the argument and \<open>env\<close> the environment variable
  \<open>OPENAI_API_KEY\<close>, \<open>None\<close> when absent; an absent or empty key is falsy.
\<close>

definition truthy :: "string option \<Rightarrow> bool" where
  "truthy k = (case k of None \<Rightarrow> False | Some s \<Rightarrow> s \<noteq> [])"

definition init :: "string option \<Rightarrow> string option \<Rightarrow> string \<Rightarrow> exn + classifier" where
  "init key env mdl =
     (let k = (if truthy key then key else env) in
      case k of
        None \<Rightarrow> Inl (ValueError ''OpenAI API key not found. Set OPENAI_API_KEY environment variable or pass api_key parameter.'')
      | Some s \<Rightarrow>
          if s = [] then Inl (ValueError ''OpenAI API key not found. Set OPENAI_API_KEY environment variable or pass api_key parameter.'')
          else Inr \<lparr>api_key = s, self_model = mdl, formatted_examples = format_examples\<rparr>)"

definition user_prompt :: "classifier \<Rightarrow> string \<Rightarrow> string \<Rightarrow> string" where
  "user_prompt self subject description =
     ''Here are the examples:\<newline>'' @ formatted_examples self @
     ''\<newline>\<newline>Classify this report:\<newline>'' @
     ''Failure_type must be selected exclusively from the defined Failure Type categories.\<newline>'' @
     ''\<newline>**LINAC downtime report**\<newline>Subject: '' @ subject @
     ''\<newline>Description: '' @ description @ ''\<newline>''"

text \<open>
  Lines 136 to 139: the content of a fenced block replaces \<open>result_text\<close>. The result is
  the new value of \<open>result_text\<close>, or the exception raised while computing it (then the
  variable keeps the stripped response).
\<close>

definition fence_json :: string where
  "fence_json = ''```json''"

definition fence :: string where
  "fence = ''```''"

definition between :: "string \<Rightarrow> string \<Rightarrow> exn + string" where
  "between opening t =
     bind_exn (py_split t opening) (\<lambda>parts.
     bind_exn (py_index parts 1) (\<lambda>p.
     bind_exn (py_split p fence) (\<lambda>parts'.
     bind_exn (py_index parts' 0) (\<lambda>q. Inr (strip q)))))"

definition unfence :: "string \<Rightarrow> exn + string" where
  "unfence t =
     (if contains fence_json t then between fence_json t
      else if contains fence t then between fence t
      else Inr t)"

text \<open>
  The body of the \<open>try\<close> block, lines 123 to 142, for one outcome of the transport.
  \<open>rt\<close> is the local variable \<open>result_text\<close> before the attempt, \<open>None\<close> while it is
  unbound; the first component of the result is the variable after the attempt, the
  second is the value the block returns or the exception it raises.
\<close>

definition none_has_no_strip :: string where
  "none_has_no_strip =
     CHR 0x27 # ''NoneType'' @ CHR 0x27 # '' object has no attribute '' @ CHR 0x27 # ''strip'' @ [CHR 0x27]"

definition try_block :: "decoder \<Rightarrow> outcome \<Rightarrow> string option \<Rightarrow> string option \<times> (exn + pyobj)" where
  \<open>try_block loads out rt =
     (case out of
        Raises e \<Rightarrow> (rt, Inl e)
      | Responds choices \<Rightarrow>
          (case py_index choices 0 of
             Inl e \<Rightarrow> (rt, Inl e)
           | Inr None \<Rightarrow> (rt, Inl (AttributeError none_has_no_strip))
           | Inr (Some content) \<Rightarrow>
               (let t = strip content in
                case unfence t of
                  Inl e \<Rightarrow> (Some t, Inl e)
                | Inr t' \<Rightarrow> (Some t', loads t'))))\<close>

text \<open>
  \<open>str(e)\<close> of the \<open>UnboundLocalError\<close> that reading \<open>result_text\<close> raises while no
  assignment has bound it (the wording of CPython 3.11 and later).
\<close>

definition result_text_unbound :: string where
  "result_text_unbound =
     ''cannot access local variable '' @ CHR 0x27 # ''result_text'' @ CHR 0x27 #
     '' where it is not associated with a value''"

text \<open>
  The \<open>for attempt in range(max_retries)\<close> loop, lines 121 to 152, over the attempt
  numbers still to run. The state is the number of transport calls made so far and
  \<open>result_text\<close>. The loop returns a value, lets an exception escape, or runs out of
  attempts. The handler of \<open>JSONDecodeError\<close> reads \<open>result_text\<close> at the last attempt
  (line 147), which raises when the variable is unbound.
\<close>

datatype loop_exit = Return pyobj | Escape exn | Exhausted

definition parse_error :: "string \<Rightarrow> exn \<Rightarrow> pyobj" where
  "parse_error raw e =
     PDict [(''failure_type'', PStr ''ParseError''), (''raw_response'', PStr raw),
            (''error'', PStr (str_exn e))]"

definition api_error :: "exn \<Rightarrow> pyobj" where
  "api_error e = PDict [(''failure_type'', PStr ''APIError''), (''error'', PStr (str_exn e))]"

definition unknown_error :: pyobj where
  "unknown_error = PDict [(''failure_type'', PStr ''UnknownError'')]"

fun attempts :: "decoder \<Rightarrow> transport \<Rightarrow> request \<Rightarrow> int \<Rightarrow> nat list \<Rightarrow>
    nat \<Rightarrow> string option \<Rightarrow> loop_exit \<times> nat" where
  "attempts loads tr req max_retries [] calls rt = (Exhausted, calls)"
| "attempts loads tr req max_retries (attempt # rest) calls rt =
     (case try_block loads (tr calls req) rt of
        (rt', Inr result) \<Rightarrow> (Return result, Suc calls)
      | (rt', Inl e) \<Rightarrow>
          if is_JSONDecodeError e then
            (if int attempt = max_retries - 1 then
               (case rt' of
                  None \<Rightarrow> (Escape (UnboundLocalError result_text_unbound), Suc calls)
                | Some raw \<Rightarrow> (Return (parse_error raw e), Suc calls))
             else attempts loads tr req max_retries rest (Suc calls) rt')
          else if is_Exception e then
            (if int attempt = max_retries - 1 then (Return (api_error e), Suc calls)
             else attempts loads tr req max_retries rest (Suc calls) rt')
          else (Escape e, Suc calls))"

text \<open>\<open>range(n)\<close> for a Python integer: empty when \<open>n \<le> 0\<close>.\<close>

definition py_range :: "int \<Rightarrow> nat list" where
  "py_range n = [0 ..< nat n]"

definition build_request :: "classifier \<Rightarrow> string \<Rightarrow> string \<Rightarrow> request" where
  "build_request self subject description =
     \<lparr>model = self_model self,
      messages = [(''system'', SYSTEM_PROMPT), (''user'', user_prompt self subject description)],
      temperature = ''0.7''\<rparr>"

text \<open>
  \<open>classify_report\<close>: the result is the returned value (\<open>Inr\<close>) or the exception that
  leaves the function (\<open>Inl\<close>), with the number of transport calls made so far.
\<close>

definition run_attempts :: "decoder \<Rightarrow> transport \<Rightarrow> request \<Rightarrow> int \<Rightarrow> nat \<Rightarrow> loop_exit \<times> nat" where
  "run_attempts loads tr req max_retries calls =
     attempts loads tr req max_retries (py_range max_retries) calls None"

definition classify_report :: "decoder \<Rightarrow> transport \<Rightarrow> classifier \<Rightarrow>
    string \<Rightarrow> string \<Rightarrow> int \<Rightarrow> nat \<Rightarrow> (exn + pyobj) \<times> nat" where
  "classify_report loads tr self subject description max_retries calls =
     (case run_attempts loads tr (build_request self subject description)
             max_retries calls of
        (Return v, calls') \<Rightarrow> (Inr v, calls')
      | (Escape e, calls') \<Rightarrow> (Inl e, calls')
      | (Exhausted, calls') \<Rightarrow> (Inr unknown_error, calls'))"

text \<open>\<open>upto sep s\<close>: \<open>s\<close> up to the first occurrence of \<open>sep\<close>, all of \<open>s\<close> without one.\<close>

definition upto :: "string \<Rightarrow> string \<Rightarrow> string" where
  "upto sep s = (case cut sep s of None \<Rightarrow> s | Some (b, a) \<Rightarrow> b)"

text \<open>
  Mocks for concrete runs: a transport that plays a list of outcomes, one per call, a
  decoder given by the finite part of the graph of \<open>json.loads\<close> that a run needs (any
  other text is rejected with the message \<open>msg\<close>), and a classifier object.
\<close>

definition scripted :: "outcome list \<Rightarrow> transport" where
  "scripted outs n req =
     (if n < length outs then outs ! n else Raises (OtherException ''no response scripted''))"

definition decoder_table :: "(string \<times> pyobj) list \<Rightarrow> string \<Rightarrow> decoder" where
  "decoder_table tbl msg s =
     (case map_of tbl s of Some v \<Rightarrow> Inr v | None \<Rightarrow> Inl (JSONDecodeError msg))"

definition sample_classifier :: classifier where
  "sample_classifier =
     \<lparr>api_key = ''sk-test'', self_model = ''gpt-4o'', formatted_examples = format_examples\<rparr>"

text \<open>A transport with the same outcome at every call.\<close>

definition always :: "outcome \<Rightarrow> transport" where
  "always out n req = out"

text \<open>
  The message of \<open>json.loads\<close> for a text whose first character starts no JSON value.
\<close>

definition expecting_value :: string where
  "expecting_value = ''Expecting value: line 1 column 1 (char 0)''"

text \<open>
  \<open>failure_type_is_string v\<close>: \<open>v\<close> is a mapping with the key \<open>failure_type\<close> and
  a string under it. \<open>sentinel v\<close>: \<open>v\<close> is one of the three mappings that
  \<open>classify_report\<close> builds itself.
\<close>

fun failure_type_is_string :: "pyobj \<Rightarrow> bool" where
  "failure_type_is_string (PDict d) =
     (case map_of d ''failure_type'' of Some (PStr s) \<Rightarrow> True | _ \<Rightarrow> False)"
| "failure_type_is_string v = False"

definition sentinel :: "pyobj \<Rightarrow> bool" where
  "sentinel v \<longleftrightarrow>
     (\<exists>raw e. v = parse_error raw e) \<or> (\<exists>e. v = api_error e) \<or> v = unknown_error"

section \<open>The classification batch runner\<close>

text \<open>
  A table (\<open>pandas.DataFrame\<close>) is a number of rows and the columns in their order, each
  a name with one value per row. \<open>well_formed\<close> says that the names are distinct and that
  every column has one value for each row; the operations below model \<open>pandas\<close> on such
  tables. \<open>get_column\<close> is \<open>df[name]\<close>, with \<open>KeyError\<close> for a name that is no column.
  \<open>set_column\<close> is the assignment \<open>df[name] = values\<close> of a column made for this table:
  an existing column keeps its place and gets the new values, a new name is appended as
  the last column.
\<close>

record dataframe =
  nrows :: nat
  cols :: "(string \<times> pyobj list) list"

definition column_names :: "dataframe \<Rightarrow> string list" where
  "column_names df = map fst (cols df)"

definition well_formed :: "dataframe \<Rightarrow> bool" where
  "well_formed df \<longleftrightarrow>
     distinct (column_names df) \<and> list_all (\<lambda>c. length (snd c) = nrows df) (cols df)"

definition get_column :: "dataframe \<Rightarrow> string \<Rightarrow> exn + pyobj list" where
  "get_column df name =
     (case map_of (cols df) name of None \<Rightarrow> Inl (KeyError (py_repr name)) | Some vs \<Rightarrow> Inr vs)"

fun set_values :: "(string \<times> pyobj list) list \<Rightarrow> string \<Rightarrow> pyobj list \<Rightarrow> (string \<times> pyobj list) list" where
  "set_values [] name vs = [(name, vs)]"
| "set_values ((n, ws) # cs) name vs =
     (if n = name then (n, vs) # cs else (n, ws) # set_values cs name vs)"

definition set_column :: "dataframe \<Rightarrow> string \<Rightarrow> pyobj list \<Rightarrow> dataframe" where
  "set_column df name vs = df\<lparr>cols := set_values (cols df) name vs\<rparr>"

text \<open>
  Tables are objects: a variable holds a reference, and the heap maps each reference to
  the table it denotes. Assigning a column changes the heap at the reference.
\<close>

type_synonym ref = nat
type_synonym heap = "ref \<Rightarrow> dataframe"

text \<open>
  Line 185: \<open>x.get('failure_type', 'Error') if isinstance(x, dict) else 'Error'\<close>.
\<close>

fun label_of :: "pyobj \<Rightarrow> pyobj" where
  "label_of (PDict d) = dict_get d ''failure_type'' (PStr ''Error'')"
| "label_of x = PStr ''Error''"


text \<open>
  What \<open>classify_dataframe\<close> leaves to \<open>pandas\<close> (and to the progress bar of \<open>tqdm\<close>
  around it) is a parameter of the model, like the transport and the decoder:

  \<^item> \<open>row_text df i name\<close> is \<open>str(row[name])\<close> for the row that \<open>apply(axis=1)\<close> hands
    to the function at position \<open>i\<close> of the table, or the exception that this raises
    (a \<open>KeyError\<close> when \<open>name\<close> is no column);

  \<^item> \<open>rows_series vs\<close> are the values of the \<open>Series\<close> that \<open>apply(axis=1)\<close> builds
    from the values \<open>vs\<close> that the function returned for the rows, and \<open>map_series vs\<close>
    those of the \<open>Series\<close> that \<open>Series.apply\<close> builds from the values \<open>vs\<close> of its
    function: \<open>pandas\<close> chooses a type for the column and converts the values to it (an
    integer among floats becomes a float, \<open>None\<close> among numbers becomes \<open>NaN\<close>);

  \<^item> \<open>frame_column vs\<close> are the values of a column of the table that
    \<open>pandas.DataFrame(records)\<close> builds, where \<open>vs\<close> are the values that the records
    have under the name of the column (\<open>NaN\<close> for a record without that name);

  \<^item> \<open>degenerate df calls\<close> is what \<open>progress_apply(..., axis=1)\<close> does on a table
    without rows or without columns, where the function is not called row by row
    (\<open>pandas\<close> may call it once on a row of its own making to see what it returns, and
    \<open>tqdm\<close> divides by the number of columns): the values of the resulting \<open>Series\<close> or
    the exception, and the number of transport calls made by then.
\<close>

record pandas =
  row_text :: "dataframe \<Rightarrow> nat \<Rightarrow> string \<Rightarrow> exn + string"
  rows_series :: "pyobj list \<Rightarrow> pyobj list"
  map_series :: "pyobj list \<Rightarrow> pyobj list"
  frame_column :: "pyobj list \<Rightarrow> pyobj list"
  degenerate :: "dataframe \<Rightarrow> nat \<Rightarrow> (exn + pyobj list) \<times> nat"

text \<open>
  Lines 175 to 181, on a table with rows and columns: the function
  \<open>classify_report(str(row[subject_col]), str(row[description_col]))\<close> is called for the
  rows in their order, with the default of three attempts, and the results are
  collected; the first exception ends the run.
\<close>

fun classify_rows :: "pandas \<Rightarrow> decoder \<Rightarrow> transport \<Rightarrow> classifier \<Rightarrow> dataframe \<Rightarrow>
    string \<Rightarrow> string \<Rightarrow> nat list \<Rightarrow> nat \<Rightarrow> (exn + pyobj list) \<times> nat" where
  "classify_rows pd loads tr self df subject_col description_col [] calls = (Inr [], calls)"
| "classify_rows pd loads tr self df subject_col description_col (i # rest) calls =
     (case row_text pd df i subject_col of
        Inl e \<Rightarrow> (Inl e, calls)
      | Inr s \<Rightarrow>
          (case row_text pd df i description_col of
             Inl e \<Rightarrow> (Inl e, calls)
           | Inr d \<Rightarrow>
               (case classify_report loads tr self s d 3 calls of
                  (Inl e, calls') \<Rightarrow> (Inl e, calls')
                | (Inr v, calls') \<Rightarrow>
                    (case classify_rows pd loads tr self df subject_col description_col rest calls' of
                       (Inl e, calls'') \<Rightarrow> (Inl e, calls'')
                     | (Inr vs, calls'') \<Rightarrow> (Inr (v # vs), calls'')))))"

text \<open>
  \<open>df.progress_apply(lambda row: ..., axis=1)\<close>: the values of the \<open>Series\<close> it returns,
  or the exception, and the number of transport calls.
\<close>

definition progress_apply :: "pandas \<Rightarrow> decoder \<Rightarrow> transport \<Rightarrow> classifier \<Rightarrow> dataframe \<Rightarrow>
    string \<Rightarrow> string \<Rightarrow> nat \<Rightarrow> (exn + pyobj list) \<times> nat" where
  "progress_apply pd loads tr self df subject_col description_col calls =
     (if nrows df = 0 \<or> cols df = [] then degenerate pd df calls
      else
        (case classify_rows pd loads tr self df subject_col description_col [0 ..< nrows df] calls of
           (Inl e, calls') \<Rightarrow> (Inl e, calls')
         | (Inr results, calls') \<Rightarrow> (Inr (rows_series pd results), calls')))"

text \<open>
  \<open>classify_dataframe\<close>: the two assignments of lines 175 and 184 on the table behind
  the reference \<open>df\<close>, which is also what is returned. The second assignment reads the
  column that the first one has stored. The result is the returned reference or the
  exception, the heap and the number of transport calls.
\<close>

definition classify_dataframe :: "pandas \<Rightarrow> decoder \<Rightarrow> transport \<Rightarrow> classifier \<Rightarrow>
    heap \<Rightarrow> ref \<Rightarrow> string \<Rightarrow> string \<Rightarrow> string \<Rightarrow> nat \<Rightarrow> (exn + ref) \<times> heap \<times> nat" where
  "classify_dataframe pd loads tr self h df subject_col description_col output_col calls =
     (case progress_apply pd loads tr self (h df) subject_col description_col calls of
        (Inl e, calls') \<Rightarrow> (Inl e, h, calls')
      | (Inr series, calls') \<Rightarrow>
          (let h1 = h(df := set_column (h df) output_col series) in
           case get_column (h1 df) output_col of
             Inl e \<Rightarrow> (Inl e, h1, calls')
           | Inr xs \<Rightarrow>
               (let h2 = h1(df := set_column (h1 df) ''failure_type''
                                    (map_series pd (map label_of xs)))
                in (Inr df, h2, calls'))))"

text \<open>The two parts of the result of \<open>classify_dataframe\<close> that the claims are about.\<close>

definition returned :: "(exn + ref) \<times> heap \<times> nat \<Rightarrow> exn + ref" where
  "returned r = fst r"

definition frame_after :: "(exn + ref) \<times> heap \<times> nat \<Rightarrow> ref \<Rightarrow> dataframe" where
  "frame_after r df = fst (snd r) df"

text \<open>
  For concrete runs: a heap with one table, and a \<open>pandas\<close> given by the finite part of
  its behaviour that a run needs, the texts of the cells read and the \<open>Series\<close> built
  (a cell that is not listed raises, a list of values that is not listed gives an empty
  \<open>Series\<close>; no run below gets there).
\<close>

definition single_heap :: "dataframe \<Rightarrow> heap" where
  "single_heap df r = df"

definition cell_texts :: "((nat \<times> string) \<times> string) list \<Rightarrow> dataframe \<Rightarrow> nat \<Rightarrow> string \<Rightarrow> exn + string" where
  "cell_texts tbl df i name =
     (case map_of tbl (i, name) of
        Some s \<Rightarrow> Inr s
      | None \<Rightarrow> Inl (OtherException ''no text scripted for this cell''))"

definition series_table :: "(pyobj list \<times> pyobj list) list \<Rightarrow> pyobj list \<Rightarrow> pyobj list" where
  "series_table tbl vs = (case map_of tbl vs of Some ws \<Rightarrow> ws | None \<Rightarrow> [])"

definition scripted_pandas :: "((nat \<times> string) \<times> string) list \<Rightarrow>
    (pyobj list \<times> pyobj list) list \<Rightarrow> (pyobj list \<times> pyobj list) list \<Rightarrow> pandas" where
  "scripted_pandas cells rows_tbl map_tbl =
     \<lparr>row_text = cell_texts cells,
      rows_series = series_table rows_tbl,
      map_series = series_table map_tbl,
      frame_column = series_table [],
      degenerate = (\<lambda>df calls. (Inl (OtherException ''no run on such a table scripted''), calls))\<rparr>"

text \<open>Sample tables, cell texts, transports and a decoder for concrete runs.\<close>

definition sample_table :: dataframe where
  "sample_table =
     \<lparr>nrows = 2,
      cols = [(''subject'', [PStr ''GFIL, down'', PStr ''Couch will not move'']),
              (''description'', [PStr ''Gun interlock'', PFloat ''nan''])]\<rparr>"

definition sample_cells :: "((nat \<times> string) \<times> string) list" where
  "sample_cells =
     [((0, ''subject''), ''GFIL, down''), ((0, ''description''), ''Gun interlock''),
      ((1, ''subject''), ''Couch will not move''), ((1, ''description''), ''nan'')]"

definition classified_table :: dataframe where
  "classified_table =
     \<lparr>nrows = 1,
      cols = [(''subject'', [PStr ''GFIL, down'']),
              (''description'', [PStr ''Gun interlock'']),
              (''failure_type'', [PStr ''Cooling System''])]\<rparr>"


definition sample_outcomes :: "outcome list" where
  \<open>sample_outcomes =
     [Responds [Some ''{"failure_type": "Beam Generation"}''],
      Responds [Some ''I cannot tell.''], Responds [Some ''I cannot tell.''],
      Responds [Some ''I cannot tell.'']]\<close>

definition numeric_outcomes :: "outcome list" where
  \<open>numeric_outcomes =
     [Responds [Some ''{"failure_type": 3}''], Responds [Some ''{"failure_type": 0.5}'']]\<close>

definition sample_decoder :: decoder where
  \<open>sample_decoder =
     decoder_table
       [(''{"failure_type": "Beam Generation"}'', PDict [(''failure_type'', PStr ''Beam Generation'')]),
        (''{"failure_type": ["Beam Generation", "Cooling System"]}'',
         PDict [(''failure_type'', PList [PStr ''Beam Generation'', PStr ''Cooling System''])]),
        (''{"failure_type": 3}'', PDict [(''failure_type'', PInt 3)]),
        (''{"failure_type": 0.5}'', PDict [(''failure_type'', PFloat ''0.5'')])]
       expecting_value\<close>

text \<open>
  The \<open>pandas\<close> of three runs. In the first the results are two mappings and their labels
  two strings, in the third one mapping and a list: all are kept as they are. In the
  second the labels are the integer 3 and the float 0.5, which \<open>pandas\<close> stores as the
  floats 3.0 and 0.5.
\<close>

definition sample_results :: "pyobj list" where
  "sample_results =
     [PDict [(''failure_type'', PStr ''Beam Generation'')],
      parse_error ''I cannot tell.'' (JSONDecodeError expecting_value)]"

definition sample_pandas :: pandas where
  "sample_pandas =
     scripted_pandas sample_cells [(sample_results, sample_results)]
       [([PStr ''Beam Generation'', PStr ''ParseError''],
         [PStr ''Beam Generation'', PStr ''ParseError''])]"





definition relabel_results :: "pyobj list" where
  "relabel_results = [PDict [(''failure_type'', PStr ''Beam Generation'')]]"

definition relabel_pandas :: pandas where
  "relabel_pandas =
     scripted_pandas sample_cells [(relabel_results, relabel_results)]
       [([PStr ''Beam Generation''], [PStr ''Beam Generation''])]"

section \<open>Regular expressions\<close>

text \<open>
  The patterns of the three extractors use literals, classes of characters, bounded and
  unbounded repetition of one class (greedy or lazy), groups and one alternation; they
  are matched as \<open>re\<close> matches them, by backtracking from the left. A class item is a
  character, a range, \<open>\d\<close>, \<open>\s\<close> or \<open>\S\<close>; a class is \<open>.\<close> (any character but the
  newline, any character under \<open>re.DOTALL\<close>), a set \<open>[...]\<close> or a complement \<open>[^...]\<close>.
  On the strings of this development (code points below 256) \<open>\d\<close> is 0 to 9 and \<open>\s\<close>
  is \<open>isspace\<close>.
\<close>

datatype citem = Ch char | Rg char char | Digit | Space | NonSpace

datatype cset = Dot | In "citem list" | NotIn "citem list"

fun citem_match :: "citem \<Rightarrow> char \<Rightarrow> bool" where
  "citem_match (Ch x) c = (c = x)"
| "citem_match (Rg lo hi) c = (of_char lo \<le> (of_char c :: nat) \<and> (of_char c :: nat) \<le> of_char hi)"
| "citem_match Digit c = (of_char CHR ''0'' \<le> (of_char c :: nat) \<and> (of_char c :: nat) \<le> of_char CHR ''9'')"
| "citem_match Space c = isspace c"
| "citem_match NonSpace c = (\<not> isspace c)"

fun cset_match :: "bool \<Rightarrow> cset \<Rightarrow> char \<Rightarrow> bool" where
  "cset_match dotall Dot c = (dotall \<or> c \<noteq> CHR 0x0A)"
| "cset_match dotall (In items) c = list_ex (\<lambda>i. citem_match i c) items"
| "cset_match dotall (NotIn items) c = (\<not> list_ex (\<lambda>i. citem_match i c) items)"

text \<open>
  A pattern is a list of items matched one after the other. \<open>Rep c lo hi greedy\<close> is the
  class \<open>c\<close> repeated \<open>lo\<close> to \<open>hi\<close> times (\<open>None\<close>: no upper bound); \<open>Grp n b\<close> is the
  capturing group number \<open>n\<close> around \<open>b\<close>; \<open>Alt a b\<close> is \<open>(?:a|b)\<close>. Two items are
  written by the matcher only, never in a pattern: \<open>Mark n start\<close> ends group \<open>n\<close>, which
  was entered with \<open>start\<close> left to match, and \<open>Advance start\<close> at the end of a pattern
  refuses a match that ends where it began, at \<open>start\<close> (this is how \<open>findall\<close> goes on
  after an empty match).
\<close>

datatype rx =
    Lit string
  | Rep cset nat "nat option" bool
  | Grp nat "rx list"
  | Alt "rx list" "rx list"
  | Mark nat string
  | Advance string

text \<open>
  The numbers of repetitions to try for \<open>Rep\<close> at the text \<open>s\<close>, in the order of the
  backtracking: as many as possible first when greedy, as few as possible first when lazy.
\<close>

definition counts :: "bool \<Rightarrow> cset \<Rightarrow> nat \<Rightarrow> nat option \<Rightarrow> bool \<Rightarrow> string \<Rightarrow> nat list" where
  "counts dotall c lo hi greedy s =
     (let run = length (takeWhile (cset_match dotall c) s);
          most = (case hi of None \<Rightarrow> run | Some h \<Rightarrow> min run h)
      in if most < lo then []
         else if greedy then rev [lo ..< Suc most] else [lo ..< Suc most])"

fun first_some :: "'a option list \<Rightarrow> 'a option" where
  "first_some [] = None"
| "first_some (Some x # xs) = Some x"
| "first_some (None # xs) = first_some xs"

text \<open>
  \<open>rmatch dotall p s caps\<close> matches the pattern \<open>p\<close> at the beginning of \<open>s\<close>, with the
  groups \<open>caps\<close> captured so far: the first way to match in the order of the backtracking,
  as the groups captured and the text left after the match, or \<open>None\<close>.
\<close>

function rmatch :: "bool \<Rightarrow> rx list \<Rightarrow> string \<Rightarrow> (nat \<rightharpoonup> string) \<Rightarrow> ((nat \<rightharpoonup> string) \<times> string) option" where
  "rmatch d [] s caps = Some (caps, s)"
| "rmatch d (Lit l # r) s caps =
     (if prefix l s then rmatch d r (drop (length l) s) caps else None)"
| "rmatch d (Rep c lo hi greedy # r) s caps =
     first_some (map (\<lambda>k. rmatch d r (drop k s) caps) (counts d c lo hi greedy s))"
| "rmatch d (Grp n b # r) s caps = rmatch d (b @ Mark n s # r) s caps"
| "rmatch d (Mark n start # r) s caps =
     rmatch d r s (caps(n \<mapsto> take (length start - length s) start))"
| "rmatch d (Alt a b # r) s caps =
     (case rmatch d (a @ r) s caps of Some x \<Rightarrow> Some x | None \<Rightarrow> rmatch d (b @ r) s caps)"
| "rmatch d (Advance start # r) s caps =
     (if length s < length start then rmatch d r s caps else None)"
  by pat_completeness auto
termination
  by (relation "measure (\<lambda>(d, p, s, caps). size_list size p)") auto

text \<open>
  A match object, as far as the program reads it: the text matched, the groups, and the
  text after the match. \<open>re_search\<close> is \<open>re.search\<close>: the match at the leftmost position
  where the pattern matches, the end of the text included.
\<close>

record rmatched =
  whole :: string
  groups :: "nat \<rightharpoonup> string"
  remainder :: string

fun re_search :: "bool \<Rightarrow> rx list \<Rightarrow> string \<Rightarrow> rmatched option" where
  "re_search d p [] =
     (case rmatch d p [] Map.empty of
        Some (caps, rest) \<Rightarrow> Some \<lparr>whole = [], groups = caps, remainder = rest\<rparr>
      | None \<Rightarrow> None)"
| "re_search d p (c # cs) =
     (case rmatch d p (c # cs) Map.empty of
        Some (caps, rest) \<Rightarrow>
          Some \<lparr>whole = take (length (c # cs) - length rest) (c # cs), groups = caps, remainder = rest\<rparr>
      | None \<Rightarrow> re_search d p cs)"

text \<open>
  The search that \<open>findall\<close> makes after an empty match: at the position where that match
  ended a match must not be empty, at the later positions every match is taken.
\<close>

definition re_search_advancing :: "bool \<Rightarrow> rx list \<Rightarrow> string \<Rightarrow> rmatched option" where
  "re_search_advancing d p s =
     (case rmatch d (p @ [Advance s]) s Map.empty of
        Some (caps, rest) \<Rightarrow>
          Some \<lparr>whole = take (length s - length rest) s, groups = caps, remainder = rest\<rparr>
      | None \<Rightarrow> (case s of [] \<Rightarrow> None | c # cs \<Rightarrow> re_search d p cs))"

lemma first_some_map:
  "first_some (map f xs) = Some y \<Longrightarrow> \<exists>x \<in> set xs. f x = Some y"
proof (induction xs)
  case Nil
  then show ?case by simp
next
  case (Cons x xs)
  then show ?case by (cases "f x") auto
qed

lemma rmatch_shorter:
  "rmatch d p s caps = Some (caps', rest) \<Longrightarrow> length rest \<le> length s"
proof (induction d p s caps arbitrary: caps' rest rule: rmatch.induct)
  case (1 d s caps)
  then show ?case by simp
next
  case (2 d l r s caps)
  then show ?case by (fastforce split: if_splits)
next
  case (3 d c lo hi greedy r s caps)
  from "3.prems" obtain k where k: "k \<in> set (counts d c lo hi greedy s)"
    "rmatch d r (drop k s) caps = Some (caps', rest)"
    by (auto dest: first_some_map)
  from "3.IH" [OF k] show ?case by simp
next
  case (4 d n b r s caps)
  then show ?case by simp
next
  case (5 d n start r s caps)
  then show ?case by (simp add: fun_upd_def)
next
  case (6 d a b r s caps)
  then show ?case by (auto split: option.splits)
next
  case (7 d start r s caps)
  then show ?case by (simp split: if_splits)
qed

fun advances :: "string \<Rightarrow> rx list \<Rightarrow> bool" where
  "advances st [] = False"
| "advances st (Advance st' # r) = (st' = st \<or> advances st r)"
| "advances st (x # r) = advances st r"

lemma advances_append: "advances st (a @ b) = (advances st a \<or> advances st b)"
  by (induction st a rule: advances.induct) auto

lemma rmatch_advances:
  "rmatch d p s caps = Some (caps', rest) \<Longrightarrow> advances st p \<Longrightarrow> length rest < length st"
proof (induction d p s caps arbitrary: caps' rest rule: rmatch.induct)
  case (1 d s caps)
  then show ?case by simp
next
  case (2 d l r s caps)
  then show ?case by (simp split: if_splits)
next
  case (3 d c lo hi greedy r s caps)
  from "3.prems"(1) obtain k where k: "k \<in> set (counts d c lo hi greedy s)"
    "rmatch d r (drop k s) caps = Some (caps', rest)"
    by (auto dest: first_some_map)
  from "3.prems"(2) have "advances st r" by simp
  from "3.IH" [OF k this] show ?case .
next
  case (4 d n b r s caps)
  from "4.prems"(2) have "advances st (b @ Mark n s # r)" by (simp add: advances_append)
  with "4.prems"(1) "4.IH" show ?case by simp
next
  case (5 d n start r s caps)
  from "5.prems"(1) have "rmatch d r s (caps(n \<mapsto> take (length start - length s) start))
      = Some (caps', rest)" by simp
  moreover from "5.prems"(2) have "advances st r" by simp
  ultimately show ?case by (rule "5.IH")
next
  case (6 d a b r s caps)
  from "6.prems"(2) have c: "advances st (a @ r)" "advances st (b @ r)"
    by (simp_all add: advances_append)
  show ?case
  proof (cases "rmatch d (a @ r) s caps")
    case None
    with "6.prems"(1) "6.IH"(2) c(2) show ?thesis by simp
  next
    case (Some x)
    with "6.prems"(1) "6.IH"(1) c(1) show ?thesis by simp
  qed
next
  case (7 d start r s caps)
  from "7.prems"(1) have lt: "length s < length start"
    and m: "rmatch d r s caps = Some (caps', rest)"
    by (simp_all split: if_splits)
  show ?case
  proof (cases "start = st")
    case True
    from rmatch_shorter [OF m] lt True show ?thesis by simp
  next
    case False
    with "7.prems"(2) have "advances st r" by simp
    from "7.IH" [OF lt m this] show ?thesis .
  qed
qed

lemma re_search_shorter:
  "re_search d p s = Some m \<Longrightarrow> length (remainder m) \<le> length s"
proof (induction s)
  case Nil
  then show ?case by (auto split: option.splits dest: rmatch_shorter)
next
  case (Cons c cs)
  show ?case
  proof (cases "rmatch d p (c # cs) Map.empty")
    case None
    with Cons show ?thesis by fastforce
  next
    case (Some r)
    then obtain caps rest where "rmatch d p (c # cs) Map.empty = Some (caps, rest)" by (cases r) auto
    with Cons.prems rmatch_shorter [OF this] show ?thesis by auto
  qed
qed

lemma re_search_nonempty:
  "re_search d p s = Some m \<Longrightarrow> whole m \<noteq> [] \<Longrightarrow> length (remainder m) < length s"
proof (induction s)
  case Nil
  then show ?case by (auto split: option.splits)
next
  case (Cons c cs)
  show ?case
  proof (cases "rmatch d p (c # cs) Map.empty")
    case None
    with Cons show ?thesis by fastforce
  next
    case (Some r)
    then obtain caps rest where r: "rmatch d p (c # cs) Map.empty = Some (caps, rest)"
      by (cases r) auto
    with Cons.prems have "remainder m = rest" "whole m = take (length (c # cs) - length rest) (c # cs)"
      by auto
    with Cons.prems(2) rmatch_shorter [OF r] show ?thesis by (cases "length rest = length (c # cs)") auto
  qed
qed

lemma re_search_advancing_shorter:
  assumes "re_search_advancing d p s = Some m"
  shows "length (remainder m) < length s"
proof (cases "rmatch d (p @ [Advance s]) s Map.empty")
  case (Some r)
  then obtain caps rest where r: "rmatch d (p @ [Advance s]) s Map.empty = Some (caps, rest)"
    by (cases r) auto
  have "advances s (p @ [Advance s])" by (simp add: advances_append)
  from rmatch_advances [OF r this] r assms show ?thesis
    by (auto simp: re_search_advancing_def)
next
  case None
  with assms obtain c cs where s: "s = c # cs" and "re_search d p cs = Some m"
    by (auto simp: re_search_advancing_def split: list.splits)
  from re_search_shorter [OF this(2)] s show ?thesis by simp
qed

text \<open>
  \<open>re_findall\<close> is \<open>re.findall\<close>, the matches from left to right as match objects (the
  program reads their groups): each search starts where the match before ended, and
  after an empty match the next one must not be empty at that position.
\<close>

function re_findall_from :: "bool \<Rightarrow> rx list \<Rightarrow> bool \<Rightarrow> string \<Rightarrow> rmatched list" where
  "re_findall_from d p must_advance s =
     (case (if must_advance then re_search_advancing d p s else re_search d p s) of
        None \<Rightarrow> []
      | Some m \<Rightarrow> m # re_findall_from d p (whole m = []) (remainder m))"
  by pat_completeness auto
termination
proof (relation "measures [\<lambda>(d, p, a, s). length s, \<lambda>(d, p, a, s). if a then 0 else 1]", goal_cases)
  case 1
  show ?case by simp
next
  case (2 d p must_advance s m)
  show ?case
  proof (cases must_advance)
    case True
    with 2 have "re_search_advancing d p s = Some m" by simp
    from re_search_advancing_shorter [OF this] show ?thesis by simp
  next
    case False
    with 2 have m: "re_search d p s = Some m" by simp
    show ?thesis
    proof (cases "whole m = []")
      case True
      with re_search_shorter [OF m] False show ?thesis by auto
    next
      case W: False
      from re_search_nonempty [OF m W] show ?thesis by simp
    qed
  qed
qed

declare re_findall_from.simps [simp del]

definition re_findall :: "bool \<Rightarrow> rx list \<Rightarrow> string \<Rightarrow> rmatched list" where
  "re_findall d p s = re_findall_from d p False s"

text \<open>The quantifiers \<open>+\<close>, \<open>*\<close>, \<open>?\<close>, none, \<open>+?\<close>, \<open>*?\<close> and \<open>{lo,hi}\<close> on a class.\<close>

definition plus :: "cset \<Rightarrow> rx" where "plus c = Rep c 1 None True"
definition star :: "cset \<Rightarrow> rx" where "star c = Rep c 0 None True"
definition opt :: "cset \<Rightarrow> rx" where "opt c = Rep c 0 (Some 1) True"
definition one :: "cset \<Rightarrow> rx" where "one c = Rep c 1 (Some 1) True"
definition lazy_plus :: "cset \<Rightarrow> rx" where "lazy_plus c = Rep c 1 None False"
definition lazy_star :: "cset \<Rightarrow> rx" where "lazy_star c = Rep c 0 None False"
definition times :: "cset \<Rightarrow> nat \<Rightarrow> nat \<Rightarrow> rx" where "times c lo hi = Rep c lo (Some hi) True"

text \<open>The classes \<open>\s\<close> and \<open>\d\<close>.\<close>

definition ws :: cset where "ws = In [Space]"
definition dg :: cset where "dg = In [Digit]"

text \<open>
  The patterns of \<open>report_type1_processing.py\<close>, lines 15 to 26. \<open>p1_stamp\<close> is
  \<open>[\d/]+ [\d:]+ [APM]+\<close> and \<open>p1_number\<close> is \<open>\d+\.?\d*\<close>, which several of them share.
\<close>

definition p1_work_order_id :: "rx list" where
  "p1_work_order_id = [Lit ''Work Order'', plus ws, Lit ''WO-'', Grp 1 [plus dg]]"

definition p1_machine_id :: "rx list" where
  "p1_machine_id = [Lit ''Asset'', plus ws, Grp 1 [plus (In [NonSpace])]]"

definition p1_subject :: "rx list" where
  "p1_subject = [Lit ''Subject'', plus ws, Grp 1 [plus Dot]]"

definition p1_description :: "rx list" where
  "p1_description =
     [Lit ''Closure Summary'', plus ws, Grp 1 [lazy_plus (In [Space, NonSpace])],
      Lit ''\<newline>Work Order Times'']"

definition p1_stamp :: "rx list" where
  "p1_stamp =
     [plus (In [Digit, Ch CHR ''/'']), Lit '' '', plus (In [Digit, Ch CHR '':'']), Lit '' '',
      plus (In [Ch CHR ''A'', Ch CHR ''P'', Ch CHR ''M''])]"

definition p1_malfunction_start :: "rx list" where
  "p1_malfunction_start = [Lit ''Malfunction Start'', star ws, Lit '':'', star ws, Grp 1 p1_stamp]"

definition p1_machine_release :: "rx list" where
  "p1_machine_release = [Lit ''Machine Release'', star ws, Grp 1 p1_stamp]"

definition p1_time_in :: "rx list" where
  "p1_time_in = [Lit ''Time In'', star ws, Grp 1 p1_stamp]"

definition p1_time_out :: "rx list" where
  "p1_time_out = [Lit ''Time Out'', star ws, Grp 1 p1_stamp]"

definition p1_number :: "rx list" where
  "p1_number = [plus dg, opt (In [Ch CHR ''.'']), star dg]"

definition p1_down_time_hours :: "rx list" where
  "p1_down_time_hours = [Lit ''Agreed Downtime'', star ws, Grp 1 p1_number]"

definition p1_site_hours :: "rx list" where
  "p1_site_hours = [Lit ''Site Hours'', star ws, Grp 1 p1_number]"

definition p1_travel_hours :: "rx list" where
  "p1_travel_hours = [Lit ''Travel Hours'', star ws, Grp 1 p1_number]"

definition p1_total_work_hours :: "rx list" where
  "p1_total_work_hours = [Lit ''Total Work Hours'', star ws, Grp 1 p1_number]"

text \<open>
  The patterns of \<open>report_type2_processing.py\<close>, lines 17 to 32. \<open>p2_date\<close> is
  \<open>\d{1,2}/\d{1,2}/\d{4}\<close> and \<open>p2_clock\<close> is \<open>\d{1,2}:\d{2}\s+[AP]M\<close>.
\<close>

definition p2_date :: "rx list" where
  "p2_date = [times dg 1 2, Lit ''/'', times dg 1 2, Lit ''/'', times dg 4 4]"

definition p2_clock :: "rx list" where
  "p2_clock =
     [times dg 1 2, Lit '':'', times dg 2 2, plus ws, one (In [Ch CHR ''A'', Ch CHR ''P'']), Lit ''M'']"

definition p2_time_entries :: "rx list" where
  "p2_time_entries = [Grp 1 p2_date, plus ws, Grp 2 p2_clock, plus ws, Grp 3 p2_clock]"

definition p2_work_order_id :: "rx list" where
  "p2_work_order_id = [Lit ''Notification No.'', plus ws, Grp 1 [plus dg]]"

definition p2_machine_id :: "rx list" where
  "p2_machine_id =
     [Lit ''Equipment ID'', plus ws, Lit ''Equipment Name'', plus ws,
      Grp 1 [plus (In [Rg CHR ''A'' CHR ''Z'', Rg CHR ''0'' CHR ''9''])]]"

definition p2_subject :: "rx list" where
  "p2_subject = [Lit ''Reason for Call'', plus ws, Grp 1 [plus (NotIn [Ch CHR 0x0A])]]"

definition p2_description :: "rx list" where
  "p2_description = [Lit ''Corrective Action Comments'', Grp 1 [lazy_star Dot], Lit ''Times on site'']"

definition p2_malfunction_start :: "rx list" where
  "p2_malfunction_start =
     [Lit ''Event Date'', plus ws,
      Grp 1 [plus (In [Digit, Ch CHR ''/'']), plus ws, plus dg, Lit '':'', plus dg, Lit '':'', plus dg,
             plus ws, one (In [Ch CHR ''A'', Ch CHR ''P'']), opt (In [Ch CHR ''M''])]]"

definition p2_machine_release :: "rx list" where
  "p2_machine_release =
     [Lit ''Equipment Released'', plus ws, Lit ''Customer Signature'', plus ws,
      Grp 1 (p2_date @ [plus ws] @ p2_clock)]"

definition p2_hours_block :: "rx list" where
  "p2_hours_block =
     [Lit ''Total '', lazy_star (NotIn [Ch CHR 0x0A]), plus ws,
      Grp 1 [plus (In [Digit, Ch CHR ''.''])], plus ws,
      Grp 2 [plus (In [Digit, Ch CHR ''.''])], plus ws,
      Grp 3 [plus (In [Digit, Ch CHR ''.''])]]"

text \<open>
  The patterns of \<open>report_type3_processing.py\<close>, lines 19 to 38. \<open>p3_stamp\<close> is
  \<open>\d{2}/\d{2}/\d{4} \d{2}:\d{2}\<close>.
\<close>

definition p3_stamp :: "rx list" where
  "p3_stamp =
     [times dg 2 2, Lit ''/'', times dg 2 2, Lit ''/'', times dg 4 4, Lit '' '',
      times dg 2 2, Lit '':'', times dg 2 2]"

definition p3_times :: "rx list" where
  "p3_times =
     [Lit ''Time In'', plus ws, Lit ''Time Out'', plus ws, Lit ''Malfunction Start'', plus ws,
      Lit ''Machine Release Time'', plus ws,
      Grp 1 p3_stamp, plus ws, Grp 2 p3_stamp, plus ws, Grp 3 p3_stamp, plus ws, Grp 4 p3_stamp]"

definition p3_work_order_id :: "rx list" where
  "p3_work_order_id = [Lit ''Work Order Number'', plus ws, Grp 1 [Lit ''WO-'', plus dg]]"

definition p3_machine_id :: "rx list" where
  "p3_machine_id =
     [Lit ''Installed Product'', plus ws, Grp 1 [plus (In [Rg CHR ''A'' CHR ''Z'', Rg CHR ''0'' CHR ''9''])]]"

definition p3_subject :: "rx list" where
  "p3_subject =
     [Lit ''Problem Description'', plus ws, Grp 1 [lazy_plus Dot],
      Alt [Lit ''\<newline>''] [Lit ''Work Performed Comments'']]"

definition p3_description :: "rx list" where
  "p3_description =
     [Lit ''Work Performed Comments'', plus ws, Grp 1 [lazy_plus Dot],
      Alt [Lit ''\<newline>Follow Up Comments''] [Lit ''\<newline>\<newline>'']]"

definition p3_hours :: "rx list" where
  "p3_hours =
     [Lit ''Total Travel Hours'', plus ws, Lit ''Total Work Hours'', plus ws,
      Lit ''Total Site Hours'', plus ws, Lit ''Agreed Downtime'', star ws, Lit ''\<newline>'',
      Grp 1 [plus (In [Rg CHR ''0'' CHR ''9'', Ch CHR ''.''])], plus ws,
      Grp 2 [plus (In [Rg CHR ''0'' CHR ''9'', Ch CHR ''.''])], plus ws,
      Grp 3 [plus (In [Rg CHR ''0'' CHR ''9'', Ch CHR ''.''])]]"

text \<open>\<open>closes n p\<close>: the pattern \<open>p\<close> has the group \<open>n\<close> on every way through it.\<close>

fun closes :: "nat \<Rightarrow> rx list \<Rightarrow> bool" where
  "closes n [] = False"
| "closes n (Grp m b # r) = (m = n \<or> closes n r)"
| "closes n (Mark m st # r) = (m = n \<or> closes n r)"
| "closes n (x # r) = closes n r"

section \<open>The report extractors\<close>

text \<open>
  A record of extracted fields is a dictionary from field names to strings or \<open>None\<close>.
  \<open>dict_set\<close> is \<open>d[k] = v\<close>: a key keeps its place, a new key goes last.
\<close>

type_synonym row = "(string \<times> pyobj) list"

fun dict_set :: "(string \<times> 'v) list \<Rightarrow> string \<Rightarrow> 'v \<Rightarrow> (string \<times> 'v) list" where
  "dict_set [] k v = [(k, v)]"
| "dict_set ((k', v') # kvs) k v =
     (if k' = k then (k', v) # kvs else (k', v') # dict_set kvs k v)"

text \<open>The results of a list of steps in order, or the first exception.\<close>

fun sequence :: "(exn + 'a) list \<Rightarrow> exn + 'a list" where
  "sequence [] = Inr []"
| "sequence (x # xs) =
     (case x of
        Inl e \<Rightarrow> Inl e
      | Inr v \<Rightarrow> (case sequence xs of Inl e \<Rightarrow> Inl e | Inr vs \<Rightarrow> Inr (v # vs)))"

text \<open>
  \<open>match.group(n).strip()\<close>, where \<open>group(n)\<close> is \<open>None\<close> for a group that took no part
  in the match; \<open>match.groups()[n - 1]\<close> as a value; and the entry of a group in a tuple
  of \<open>findall\<close>, which is the empty string for such a group.
\<close>

definition stripped_group :: "rmatched \<Rightarrow> nat \<Rightarrow> exn + string" where
  "stripped_group m n =
     (case groups m n of
        None \<Rightarrow> Inl (AttributeError none_has_no_strip)
      | Some g \<Rightarrow> Inr (strip g))"

definition group_value :: "rmatched \<Rightarrow> nat \<Rightarrow> pyobj" where
  "group_value m n = (case groups m n of None \<Rightarrow> PNone | Some g \<Rightarrow> PStr g)"

definition group_text :: "rmatched \<Rightarrow> nat \<Rightarrow> string" where
  "group_text m n = (case groups m n of None \<Rightarrow> [] | Some g \<Rightarrow> g)"

subsection \<open>Paths and file names\<close>

text \<open>
  \<open>os.path.basename\<close>, the first component of \<open>os.path.splitext\<close> and \<open>os.path.join\<close>
  of two components, on POSIX paths; \<open>str.lower\<close> on the strings of this development,
  and the test \<open>f.lower().endswith(".pdf")\<close>.
\<close>

definition basename :: "string \<Rightarrow> string" where
  "basename p = rev (takeWhile (\<lambda>c. c \<noteq> CHR ''/'') (rev p))"

definition splitext_root :: "string \<Rightarrow> string" where
  "splitext_root p =
     (let name = basename p;
          dir = take (length p - length name) p;
          ext = rev (takeWhile (\<lambda>c. c \<noteq> CHR ''.'') (rev name));
          root = take (length name - length ext - 1) name
      in if length ext < length name \<and> list_ex (\<lambda>c. c \<noteq> CHR ''.'') root
         then dir @ root else p)"

definition path_join :: "string \<Rightarrow> string \<Rightarrow> string" where
  "path_join a b =
     (if prefix ''/'' b then b
      else if a = [] \<or> suffix ''/'' a then a @ b
      else a @ ''/'' @ b)"

definition lower_pairs :: "(char \<times> char) list" where
  "lower_pairs =
       [(CHR ''A'', CHR ''a''), (CHR ''B'', CHR ''b''), (CHR ''C'', CHR ''c''), (CHR ''D'', CHR
        ''d''), (CHR ''E'', CHR ''e''), (CHR ''F'', CHR ''f''), (CHR ''G'', CHR ''g''), (CHR
        ''H'', CHR ''h''), (CHR ''I'', CHR ''i''), (CHR ''J'', CHR ''j''), (CHR ''K'', CHR
        ''k''), (CHR ''L'', CHR ''l''), (CHR ''M'', CHR ''m''), (CHR ''N'', CHR ''n''), (CHR
        ''O'', CHR ''o''), (CHR ''P'', CHR ''p''), (CHR ''Q'', CHR ''q''), (CHR ''R'', CHR
        ''r''), (CHR ''S'', CHR ''s''), (CHR ''T'', CHR ''t''), (CHR ''U'', CHR ''u''), (CHR
        ''V'', CHR ''v''), (CHR ''W'', CHR ''w''), (CHR ''X'', CHR ''x''), (CHR ''Y'', CHR
        ''y''), (CHR ''Z'', CHR ''z''), (CHR 0xC0, CHR 0xE0), (CHR 0xC1, CHR 0xE1), (CHR 0xC2,
        CHR 0xE2), (CHR 0xC3, CHR 0xE3), (CHR 0xC4, CHR 0xE4), (CHR 0xC5, CHR 0xE5), (CHR 0xC6,
        CHR 0xE6), (CHR 0xC7, CHR 0xE7), (CHR 0xC8, CHR 0xE8), (CHR 0xC9, CHR 0xE9), (CHR 0xCA,
        CHR 0xEA), (CHR 0xCB, CHR 0xEB), (CHR 0xCC, CHR 0xEC), (CHR 0xCD, CHR 0xED), (CHR 0xCE,
        CHR 0xEE), (CHR 0xCF, CHR 0xEF), (CHR 0xD0, CHR 0xF0), (CHR 0xD1, CHR 0xF1), (CHR 0xD2,
        CHR 0xF2), (CHR 0xD3, CHR 0xF3), (CHR 0xD4, CHR 0xF4), (CHR 0xD5, CHR 0xF5), (CHR 0xD6,
        CHR 0xF6), (CHR 0xD8, CHR 0xF8), (CHR 0xD9, CHR 0xF9), (CHR 0xDA, CHR 0xFA), (CHR 0xDB,
        CHR 0xFB), (CHR 0xDC, CHR 0xFC), (CHR 0xDD, CHR 0xFD), (CHR 0xDE, CHR 0xFE)]"

definition lower_char :: "char \<Rightarrow> char" where
  "lower_char c = (case map_of lower_pairs c of Some l \<Rightarrow> l | None \<Rightarrow> c)"

definition lower :: "string \<Rightarrow> string" where
  "lower s = map lower_char s"

definition is_pdf :: "string \<Rightarrow> bool" where
  "is_pdf f = suffix ''.pdf'' (lower f)"

subsection \<open>Tables from records\<close>

text \<open>
  \<open>pandas.DataFrame(records)\<close> for a list of dictionaries: one row for each record in
  their order, one column for each key in the order in which the keys are first seen.
  \<open>table_row df i\<close> is row \<open>i\<close> of a table as a dictionary.
\<close>

definition first_seen :: "string list \<Rightarrow> string list" where
  "first_seen xs = foldl (\<lambda>seen x. if x \<in> set seen then seen else seen @ [x]) [] xs"

definition table_row :: "dataframe \<Rightarrow> nat \<Rightarrow> row" where
  "table_row df i = map (\<lambda>(name, values). (name, values ! i)) (cols df)"

definition DataFrame :: "pandas \<Rightarrow> row list \<Rightarrow> dataframe" where
  "DataFrame pd recs =
     \<lparr>nrows = length recs,
      cols = map (\<lambda>n. (n, frame_column pd (map (\<lambda>r. dict_get r n (PFloat ''nan'')) recs)))
               (first_seen (concat (map (map fst) recs)))\<rparr>"

subsection \<open>First layout: \<open>report_type1_processing.py\<close>\<close>

text \<open>
  Lines 15 to 26: the twelve fields with their patterns, in the order in which they are
  put into \<open>extracted_data\<close>; lines 29 to 35: every match is replaced by its first group,
  stripped (with \<open>WO-\<close> before it for \<open>work_order_id\<close>), every \<open>None\<close> stays; line 38
  adds \<open>report_source\<close>.
\<close>

definition fields1 :: "(string \<times> rx list) list" where
  "fields1 =
     [(''work_order_id'', p1_work_order_id),
      (''machine_id'', p1_machine_id),
      (''subject'', p1_subject),
      (''description'', p1_description),
      (''malfunction_start'', p1_malfunction_start),
      (''machine_release'', p1_machine_release),
      (''time_in'', p1_time_in),
      (''time_out'', p1_time_out),
      (''down_time_hours'', p1_down_time_hours),
      (''site_hours'', p1_site_hours),
      (''travel_hours'', p1_travel_hours),
      (''total_work_hours'', p1_total_work_hours)]"

definition searches1 :: "string \<Rightarrow> (string \<times> rmatched option) list" where
  "searches1 text = map (\<lambda>(key, pattern). (key, re_search False pattern text)) fields1"

definition matched_value :: "string \<times> rmatched option \<Rightarrow> exn + string \<times> pyobj" where
  "matched_value item =
     (case item of (key, match) \<Rightarrow>
        (case match of
           Some m \<Rightarrow>
             if key = ''work_order_id''
             then bind_exn (stripped_group m 1) (\<lambda>g. Inr (key, PStr (''WO-'' @ g)))
             else bind_exn (stripped_group m 1) (\<lambda>g. Inr (key, PStr g))
         | None \<Rightarrow> Inr (key, PNone)))"

definition extract_text1 :: "string \<Rightarrow> exn + row" where
  "extract_text1 text =
     bind_exn (sequence (map matched_value (searches1 text)))
       (\<lambda>extracted_data. Inr (dict_set extracted_data ''report_source'' (PStr ''varian'')))"

text \<open>
  Opening a document is a parameter: \<open>open_pdf path\<close> gives what \<open>page.extract_text()\<close>
  returns for each page, or the exception raised on the way. Line 10 joins the texts of
  the pages that have one.
\<close>

definition page_texts1 :: "string option list \<Rightarrow> string list" where
  "page_texts1 pages = map the (filter truthy pages)"

definition extract_data_from_pdf :: "(string \<Rightarrow> exn + string option list) \<Rightarrow> string \<Rightarrow> exn + row" where
  "extract_data_from_pdf open_pdf pdf_path =
     bind_exn (open_pdf pdf_path)
       (\<lambda>pages. extract_text1 (py_join ''\<newline>'' (page_texts1 pages)))"

text \<open>
  \<open>process_multiple_pdfs\<close>, lines 42 to 53; \<open>process_one\<close> is the body of its loop.
\<close>

definition process_one :: "(string \<Rightarrow> exn + string option list) \<Rightarrow> string \<Rightarrow> exn + row" where
  "process_one open_pdf pdf_file =
     bind_exn (extract_data_from_pdf open_pdf pdf_file)
       (\<lambda>extracted_data. Inr (dict_set extracted_data ''file_name'' (PStr (basename pdf_file))))"

definition process_multiple_pdfs ::
    "pandas \<Rightarrow> (string \<Rightarrow> exn + string option list) \<Rightarrow> string list \<Rightarrow> exn + dataframe" where
  "process_multiple_pdfs pd open_pdf pdf_files =
     bind_exn (sequence (map (process_one open_pdf) pdf_files))
       (\<lambda>results. Inr (DataFrame pd results))"

subsection \<open>Second and third layout: \<open>report_type2_processing.py\<close>, \<open>report_type3_processing.py\<close>\<close>

text \<open>
  The local function \<open>find\<close> of both files, with the text it closes over as an argument:
  the first group of the first match, stripped, or the empty string.
\<close>

definition find :: "string \<Rightarrow> bool \<Rightarrow> rx list \<Rightarrow> exn + string" where
  "find text dotall pattern =
     (case re_search dotall pattern text of
        Some m \<Rightarrow> stripped_group m 1
      | None \<Rightarrow> Inr [])"

text \<open>
  \<open>extract_report_data\<close> of the second layout, lines 17 to 53, on the text of the
  document and the file name without its extension.
\<close>

definition extract_text2 :: "string \<Rightarrow> string \<Rightarrow> exn + row" where
  "extract_text2 text filename =
     (let time_entries = re_findall False p2_time_entries text;
          time_in = (if time_entries \<noteq> []
                     then group_text (hd time_entries) 1 @ '' '' @ group_text (hd time_entries) 2
                     else []);
          time_out = (if time_entries \<noteq> []
                      then group_text (last time_entries) 1 @ '' '' @ group_text (last time_entries) 3
                      else [])
      in
      bind_exn (find text False p2_work_order_id) (\<lambda>work_order_id.
      bind_exn (find text False p2_machine_id) (\<lambda>machine_id.
      bind_exn (find text False p2_subject) (\<lambda>subject.
      bind_exn (find text True p2_description) (\<lambda>description.
      bind_exn (find text False p2_malfunction_start) (\<lambda>malfunction_start.
      bind_exn (find text False p2_machine_release) (\<lambda>machine_release.
      (let hours_block = re_search False p2_hours_block text;
           travel_hours = (case hours_block of Some m \<Rightarrow> group_value m 1 | None \<Rightarrow> PStr []);
           total_work_hours = (case hours_block of Some m \<Rightarrow> group_value m 2 | None \<Rightarrow> PStr []);
           site_hours = (case hours_block of Some m \<Rightarrow> group_value m 3 | None \<Rightarrow> PStr [])
       in Inr [(''work_order_id'', PStr work_order_id),
               (''machine_id'', PStr machine_id),
               (''subject'', PStr subject),
               (''description'', PStr (strip description)),
               (''malfunction_start'', PStr malfunction_start),
               (''machine_release'', PStr machine_release),
               (''time_in'', PStr time_in),
               (''time_out'', PStr time_out),
               (''down_time_hours'', PStr []),
               (''site_hours'', site_hours),
               (''travel_hours'', travel_hours),
               (''total_work_hours'', total_work_hours),
               (''report_source'', PStr ''varian''),
               (''file_name'', PStr filename)]))))))))"

text \<open>
  Opening a document is a parameter here too: \<open>open_doc path\<close> gives what
  \<open>page.get_text()\<close> returns for each page, or the exception raised on the way; so is
  \<open>os.listdir\<close>, which gives the names in a folder in some order or raises.
\<close>

definition extract_report_data2 :: "(string \<Rightarrow> exn + string list) \<Rightarrow> string \<Rightarrow> exn + row" where
  "extract_report_data2 open_doc file_path =
     bind_exn (open_doc file_path)
       (\<lambda>pages. extract_text2 (py_join ''\<newline>'' pages) (splitext_root (basename file_path)))"

definition extract_from_folder2 ::
    "pandas \<Rightarrow> (string \<Rightarrow> exn + string list) \<Rightarrow> (string \<Rightarrow> exn + string list) \<Rightarrow> string \<Rightarrow>
     exn + dataframe" where
  "extract_from_folder2 pd listdir open_doc folder_path =
     bind_exn (listdir folder_path) (\<lambda>names.
     bind_exn (sequence (map (\<lambda>file. extract_report_data2 open_doc (path_join folder_path file))
                           (filter is_pdf names)))
       (\<lambda>data. Inr (DataFrame pd data)))"

text \<open>\<open>extract_report_data\<close> of the third layout, lines 18 to 57.\<close>

definition extract_text3 :: "string \<Rightarrow> string \<Rightarrow> exn + row" where
  "extract_text3 text filename =
     (let times_match = re_search False p3_times text;
          time_in = (case times_match of Some m \<Rightarrow> group_value m 1 | None \<Rightarrow> PStr []);
          time_out = (case times_match of Some m \<Rightarrow> group_value m 2 | None \<Rightarrow> PStr []);
          malfunction_start = (case times_match of Some m \<Rightarrow> group_value m 3 | None \<Rightarrow> PStr []);
          machine_release = (case times_match of Some m \<Rightarrow> group_value m 4 | None \<Rightarrow> PStr [])
      in
      bind_exn (find text False p3_work_order_id) (\<lambda>work_order_id.
      bind_exn (find text False p3_machine_id) (\<lambda>machine_id.
      bind_exn (find text True p3_subject) (\<lambda>subject.
      bind_exn (find text True p3_description) (\<lambda>description.
      (let hours_match = re_search False p3_hours text;
           travel_hours = (case hours_match of Some m \<Rightarrow> group_value m 1 | None \<Rightarrow> PStr []);
           total_work_hours = (case hours_match of Some m \<Rightarrow> group_value m 2 | None \<Rightarrow> PStr []);
           site_hours = (case hours_match of Some m \<Rightarrow> group_value m 3 | None \<Rightarrow> PStr [])
       in Inr [(''work_order_id'', PStr work_order_id),
               (''machine_id'', PStr machine_id),
               (''subject'', PStr subject),
               (''description'', PStr description),
               (''malfunction_start'', malfunction_start),
               (''machine_release'', machine_release),
               (''time_in'', time_in),
               (''time_out'', time_out),
               (''down_time_hours'', PStr []),
               (''site_hours'', site_hours),
               (''travel_hours'', travel_hours),
               (''total_work_hours'', total_work_hours),
               (''report_source'', PStr ''varian''),
               (''file_name'', PStr filename)]))))))"

definition extract_report_data3 :: "(string \<Rightarrow> exn + string list) \<Rightarrow> string \<Rightarrow> exn + row" where
  "extract_report_data3 open_doc file_path =
     bind_exn (open_doc file_path)
       (\<lambda>pages. extract_text3 (py_join ''\<newline>'' pages) (splitext_root (basename file_path)))"

definition extract_from_folder3 ::
    "pandas \<Rightarrow> (string \<Rightarrow> exn + string list) \<Rightarrow> (string \<Rightarrow> exn + string list) \<Rightarrow> string \<Rightarrow>
     exn + dataframe" where
  "extract_from_folder3 pd listdir open_doc folder_path =
     bind_exn (listdir folder_path) (\<lambda>names.
     bind_exn (sequence (map (\<lambda>f. extract_report_data3 open_doc (path_join folder_path f))
                           (filter is_pdf names)))
       (\<lambda>data. Inr (DataFrame pd data)))"

subsection \<open>The records in closed form\<close>

text \<open>
  The patterns of the extractors have their groups on every way through them, so that
  reading a group of a match never fails. The definitions of this subsection say what
  the extractors compute without the exceptions of the way; they are proved equal to the
  extractors below (\<open>extract_text1_eq\<close>, \<open>extract_text2_eq\<close>, \<open>extract_text3_eq\<close>).
  \<open>captured\<close> is the text of a group of the first match, \<open>find_value\<close> that of the
  first group, stripped; both are empty without a match.
\<close>

definition captured :: "bool \<Rightarrow> rx list \<Rightarrow> string \<Rightarrow> nat \<Rightarrow> string" where
  "captured dotall pattern text n =
     (case re_search dotall pattern text of Some m \<Rightarrow> group_text m n | None \<Rightarrow> [])"

definition find_value :: "string \<Rightarrow> bool \<Rightarrow> rx list \<Rightarrow> string" where
  "find_value text dotall pattern =
     (case re_search dotall pattern text of
        Some m \<Rightarrow> strip (group_text m 1)
      | None \<Rightarrow> [])"

definition field_value1 :: "string \<Rightarrow> rmatched option \<Rightarrow> pyobj" where
  "field_value1 key match =
     (case match of
        None \<Rightarrow> PNone
      | Some m \<Rightarrow> PStr ((if key = ''work_order_id'' then ''WO-'' else []) @ strip (group_text m 1)))"

definition record1 :: "string \<Rightarrow> row" where
  "record1 text =
     map (\<lambda>(key, pattern). (key, field_value1 key (re_search False pattern text))) fields1
     @ [(''report_source'', PStr ''varian'')]"

definition record2 :: "string \<Rightarrow> string \<Rightarrow> row" where
  "record2 text filename =
     (let time_entries = re_findall False p2_time_entries text in
      [(''work_order_id'', PStr (find_value text False p2_work_order_id)),
       (''machine_id'', PStr (find_value text False p2_machine_id)),
       (''subject'', PStr (find_value text False p2_subject)),
       (''description'', PStr (strip (find_value text True p2_description))),
       (''malfunction_start'', PStr (find_value text False p2_malfunction_start)),
       (''machine_release'', PStr (find_value text False p2_machine_release)),
       (''time_in'', PStr (if time_entries \<noteq> []
            then group_text (hd time_entries) 1 @ '' '' @ group_text (hd time_entries) 2 else [])),
       (''time_out'', PStr (if time_entries \<noteq> []
            then group_text (last time_entries) 1 @ '' '' @ group_text (last time_entries) 3 else [])),
       (''down_time_hours'', PStr []),
       (''site_hours'', PStr (captured False p2_hours_block text 3)),
       (''travel_hours'', PStr (captured False p2_hours_block text 1)),
       (''total_work_hours'', PStr (captured False p2_hours_block text 2)),
       (''report_source'', PStr ''varian''),
       (''file_name'', PStr filename)])"

definition record3 :: "string \<Rightarrow> string \<Rightarrow> row" where
  "record3 text filename =
     [(''work_order_id'', PStr (find_value text False p3_work_order_id)),
      (''machine_id'', PStr (find_value text False p3_machine_id)),
      (''subject'', PStr (find_value text True p3_subject)),
      (''description'', PStr (find_value text True p3_description)),
      (''malfunction_start'', PStr (captured False p3_times text 3)),
      (''machine_release'', PStr (captured False p3_times text 4)),
      (''time_in'', PStr (captured False p3_times text 1)),
      (''time_out'', PStr (captured False p3_times text 2)),
      (''down_time_hours'', PStr []),
      (''site_hours'', PStr (captured False p3_hours text 3)),
      (''travel_hours'', PStr (captured False p3_hours text 1)),
      (''total_work_hours'', PStr (captured False p3_hours text 2)),
      (''report_source'', PStr ''varian''),
      (''file_name'', PStr filename)]"

definition batch_row1 :: "string \<Rightarrow> string option list \<Rightarrow> row" where
  "batch_row1 pdf_file pages =
     record1 (py_join ''\<newline>'' (page_texts1 pages)) @ [(''file_name'', PStr (basename pdf_file))]"

text \<open>
  For the second and the third layout, the pattern behind each field that is read from
  the text (with the flag \<open>re.DOTALL\<close>); \<open>down_time_hours\<close> is the empty string in
  both. The fourteen columns of every record, in their order.
\<close>

definition fields2 :: "(string \<times> bool \<times> rx list) list" where
  "fields2 =
     [(''work_order_id'', False, p2_work_order_id),
      (''machine_id'', False, p2_machine_id),
      (''subject'', False, p2_subject),
      (''description'', True, p2_description),
      (''malfunction_start'', False, p2_malfunction_start),
      (''machine_release'', False, p2_machine_release),
      (''time_in'', False, p2_time_entries),
      (''time_out'', False, p2_time_entries),
      (''site_hours'', False, p2_hours_block),
      (''travel_hours'', False, p2_hours_block),
      (''total_work_hours'', False, p2_hours_block)]"

definition fields3 :: "(string \<times> bool \<times> rx list) list" where
  "fields3 =
     [(''work_order_id'', False, p3_work_order_id),
      (''machine_id'', False, p3_machine_id),
      (''subject'', True, p3_subject),
      (''description'', True, p3_description),
      (''malfunction_start'', False, p3_times),
      (''machine_release'', False, p3_times),
      (''time_in'', False, p3_times),
      (''time_out'', False, p3_times),
      (''site_hours'', False, p3_hours),
      (''travel_hours'', False, p3_hours),
      (''total_work_hours'', False, p3_hours)]"

definition columns14 :: "string list" where
  "columns14 =
     [''work_order_id'', ''machine_id'', ''subject'', ''description'', ''malfunction_start'',
      ''machine_release'', ''time_in'', ''time_out'', ''down_time_hours'', ''site_hours'',
      ''travel_hours'', ''total_work_hours'', ''report_source'', ''file_name'']"

text \<open>
  \<open>digit c\<close>: \<open>c\<close> is one of 0 to 9. \<open>field r key\<close>: the value under \<open>key\<close> in the record
  that an extractor returned. \<open>keeps_strings pd\<close>: a column of the table built from
  records holds, at the place of a record with a string, that string (whatever \<open>pandas\<close>
  does to values that are no strings).
\<close>

definition digit :: "char \<Rightarrow> bool" where
  "digit c = citem_match Digit c"

definition field :: "exn + row \<Rightarrow> string \<Rightarrow> pyobj option" where
  "field r key = (case r of Inl e \<Rightarrow> None | Inr rec \<Rightarrow> map_of rec key)"

definition keeps_strings :: "pandas \<Rightarrow> bool" where
  "keeps_strings pd \<longleftrightarrow>
     (\<forall>vs i s. i < length vs \<and> vs ! i = PStr s \<longrightarrow> frame_column pd vs ! i = PStr s)"

text \<open>
  For concrete runs: a file system given by the files it has (any other path raises), a
  \<open>pandas\<close> whose tables hold the values of the records as they are, and texts of
  documents.
\<close>

definition file_table :: "(string \<times> 'a) list \<Rightarrow> string \<Rightarrow> exn + 'a" where
  "file_table files path =
     (case map_of files path of
        Some content \<Rightarrow> Inr content
      | None \<Rightarrow> Inl (OtherException ''no such file scripted''))"

definition kept_columns :: pandas where
  "kept_columns =
     \<lparr>row_text = cell_texts [],
      rows_series = series_table [],
      map_series = series_table [],
      frame_column = (\<lambda>vs. vs),
      degenerate = (\<lambda>df calls. (Inl (OtherException ''no run on such a table scripted''), calls))\<rparr>"

definition two_entries :: string where
  "two_entries =
     ''Date Start End\<newline>1/2/2024 9:00 AM 11:30 AM\<newline>1/3/2024 10:15 AM 4:45 PM\<newline>''"

definition two_rows :: string where
  "two_rows =
     ''Time In Time Out Malfunction Start Machine Release Time\<newline>'' @
     ''01/02/2024 08:00 01/02/2024 12:00 01/01/2024 22:00 01/02/2024 12:30\<newline>'' @
     ''01/03/2024 09:00 01/03/2024 17:00 01/01/2024 22:00 01/03/2024 17:30\<newline>''"

section \<open>Properties of the string operations\<close>

lemma contains_cut: "contains sep s \<longleftrightarrow> cut sep s \<noteq> None"
  by (induction s) auto

lemma cut_append:
  "cut sep s = Some (b, a) \<Longrightarrow> s = b @ sep @ a"
proof (induction s arbitrary: b)
  case Nil
  then show ?case by (auto split: if_splits)
next
  case (Cons c cs)
  show ?case
  proof (cases "prefix sep (c # cs)")
    case True
    with Cons.prems show ?thesis by (auto simp: prefix_def)
  next
    case False
    with Cons.prems obtain b' where b': "cut sep cs = Some (b', a)" "b = c # b'"
      by (auto split: prod.splits)
    from Cons.IH [OF b'(1)] b'(2) show ?thesis by simp
  qed
qed

lemma cut_first:
  "cut sep s = Some (b, a) \<Longrightarrow> s = x @ sep @ y \<Longrightarrow> length b \<le> length x"
proof (induction s arbitrary: b x)
  case Nil
  then show ?case by (auto split: if_splits)
next
  case (Cons c cs)
  show ?case
  proof (cases "prefix sep (c # cs)")
    case True
    with Cons.prems(1) have "b = []" by simp
    then show ?thesis by simp
  next
    case False
    with Cons.prems(1) obtain b' where b': "cut sep cs = Some (b', a)" "b = c # b'"
      by (auto split: prod.splits)
    from False Cons.prems(2) have "x \<noteq> []" by (cases x) auto
    then obtain x' where x': "x = c # x'" "cs = x' @ sep @ y"
      using Cons.prems(2) by (cases x) auto
    from Cons.IH [OF b'(1) x'(2)] b'(2) x'(1) show ?thesis by simp
  qed
qed

lemma cut_None: "cut sep s = None \<Longrightarrow> s \<noteq> x @ sep @ y"
proof (induction s arbitrary: x)
  case Nil
  then show ?case by (auto split: if_splits)
next
  case (Cons c cs)
  then show ?case
    by (cases x) (auto split: if_splits)
qed

lemma pieces_hd: "sep \<noteq> [] \<Longrightarrow> py_index (pieces sep s) 0 = Inr (upto sep s)"
  by (subst pieces.simps) (auto simp: py_index_def upto_def split: option.splits)

lemma pieces_snd:
  "sep \<noteq> [] \<Longrightarrow> cut sep s = Some (b, a) \<Longrightarrow> py_index (pieces sep s) (Suc 0) = Inr (upto sep a)"
  apply (subst pieces.simps)
  apply (subst pieces.simps)
  apply (auto simp: py_index_def upto_def split: option.splits)
  done

lemma between_eq:
  "sep \<noteq> [] \<Longrightarrow> cut sep t = Some (pre, rest) \<Longrightarrow>
   between sep t = Inr (strip (upto fence (upto sep rest)))"
  by (simp add: between_def py_split_def bind_exn_def pieces_snd pieces_hd fence_def)

lemma cut_eqI:
  assumes "s = b @ sep @ a" and "\<And>x y. s = x @ sep @ y \<Longrightarrow> length b \<le> length x"
  shows "cut sep s = Some (b, a)"
proof (cases "cut sep s")
  case None
  from cut_None [OF this] assms(1) show ?thesis by blast
next
  case (Some p)
  obtain b' a' where p: "p = (b', a')" by (cases p)
  with Some have c: "cut sep s = Some (b', a')" by simp
  from cut_append [OF c] have s: "s = b' @ sep @ a'" .
  from cut_first [OF c assms(1)] assms(2) [OF s] have "length b = length b'" by simp
  with s assms(1) have "b = b'" "a = a'" by auto
  with c show ?thesis by simp
qed

lemma upto_fence_json:
  assumes F: "cut fence rest = Some (body, post)" and np: "\<not> prefix ''`'' post"
  shows "upto fence (upto fence_json rest) = body"
proof (cases "cut fence_json rest")
  case None
  with F show ?thesis by (simp add: upto_def)
next
  case (Some p)
  obtain b a where p: "p = (b, a)" by (cases p)
  with Some have J: "cut fence_json rest = Some (b, a)" by simp
  have FJ: "fence_json = fence @ ''json''" by (simp add: fence_def fence_json_def)
  from cut_append [OF J] have rb: "rest = b @ fence @ (''json'' @ a)" by (simp add: FJ)
  from cut_append [OF F] have rbody: "rest = body @ fence @ post" .
  from cut_first [OF F rb] have le: "length body \<le> length b" .
  from rb rbody have "b @ fence_json @ a = body @ (fence @ post)" by (simp add: FJ)
  then have "take (length body) (b @ fence_json @ a) = take (length body) (body @ (fence @ post))"
    by simp
  with le have tk: "take (length body) b = body" by simp
  define z where "z = drop (length body) b"
  from tk have zb: "b = body @ z"
    unfolding z_def by (metis append_take_drop_id)
  with \<open>b @ fence_json @ a = body @ (fence @ post)\<close>
  have z2: "z @ fence_json @ a = fence @ post" by simp
  note z = zb z2
  have first: "length body \<le> length x" if "rest = x @ fence @ y" for x y
    using cut_first [OF F that] .
  have "cut fence b = (if z = [] then None else Some (body, drop 3 z))"
  proof (cases "z = []")
    case True
    have "cut fence body = None"
    proof (cases "cut fence body")
      case (Some q)
      obtain x y where "q = (x, y)" by (cases q)
      with Some cut_append have "body = x @ fence @ y" by blast
      with rbody have "rest = x @ fence @ (y @ fence @ post)" by simp
      from first [OF this] \<open>body = x @ fence @ y\<close> show ?thesis by (simp add: fence_def)
    qed simp
    with True z show ?thesis by simp
  next
    case False
    from False obtain c1 z1 where z1: "z = c1 # z1" by (cases z) auto
    with z(2) have e1: "c1 = CHR 0x60" "z1 @ fence_json @ a = ''``'' @ post"
      by (simp_all add: fence_def)
    from e1(2) np obtain c2 z2 where z2: "z1 = c2 # z2"
      by (cases z1) (auto simp: fence_json_def)
    with e1(2) have e2: "c2 = CHR 0x60" "z2 @ fence_json @ a = ''`'' @ post"
      by simp_all
    from e2(2) np obtain c3 z3 where z3: "z2 = c3 # z3"
      by (cases z2) (auto simp: fence_json_def)
    with e2(2) have e3: "c3 = CHR 0x60" by simp
    from z1 z2 z3 e1(1) e2(1) e3 have z': "z = fence @ z3" by (simp add: fence_def)
    define z' where "z' = z3"
    with z' have z': "z = fence @ z'" by simp
    have "cut fence b = Some (body, z')"
    proof (rule cut_eqI)
      show "b = body @ fence @ z'" using z z' by simp
    next
      fix x y assume "b = x @ fence @ y"
      with rb have "rest = x @ fence @ (y @ fence @ ''json'' @ a)" by simp
      from first [OF this] show "length body \<le> length x" .
    qed
    with False z' show ?thesis by (simp add: fence_def)
  qed
  then show ?thesis using J z by (auto simp: upto_def)
qed

lemma upto_fence_idem: "upto fence (upto fence s) = upto fence s"
proof (cases "cut fence s")
  case None
  then show ?thesis by (simp add: upto_def)
next
  case (Some p)
  obtain b a where p: "p = (b, a)" by (cases p)
  with Some have c: "cut fence s = Some (b, a)" by simp
  have "cut fence b = None"
  proof (cases "cut fence b")
    case (Some q)
    obtain x y where "q = (x, y)" by (cases q)
    with Some cut_append have b: "b = x @ fence @ y" by blast
    with cut_append [OF c] have "s = x @ fence @ (y @ fence @ a)" by simp
    from cut_first [OF c this] b show ?thesis by (simp add: fence_def)
  qed simp
  with c show ?thesis by (simp add: upto_def)
qed


section \<open>Properties of the classification client\<close>

lemma attempts_Exhausted:
  "fst (attempts loads tr req m xs c rt) = Exhausted \<Longrightarrow> xs = [] \<or> int (last xs) \<noteq> m - 1"
proof (induction xs arbitrary: c rt)
  case Nil
  then show ?case by simp
next
  case (Cons a xs)
  show ?case
  proof (cases "xs = []")
    case True
    with Cons.prems show ?thesis
      by (auto split: prod.splits sum.splits if_splits option.splits)
  next
    case False
    from Cons.prems obtain c' rt' where "fst (attempts loads tr req m xs c' rt') = Exhausted"
      by (auto split: prod.splits sum.splits if_splits option.splits)
    from Cons.IH [OF this] False show ?thesis by simp
  qed
qed

lemma run_attempts_Exhausted:
  "fst (run_attempts loads tr req max_retries calls) = Exhausted \<longleftrightarrow> max_retries \<le> 0"
proof (cases "max_retries \<le> 0")
  case True
  then show ?thesis by (simp add: run_attempts_def py_range_def)
next
  case False
  have "fst (run_attempts loads tr req max_retries calls) \<noteq> Exhausted"
  proof
    assume "fst (run_attempts loads tr req max_retries calls) = Exhausted"
    then have "py_range max_retries = [] \<or> int (last (py_range max_retries)) \<noteq> max_retries - 1"
      unfolding run_attempts_def by (rule attempts_Exhausted)
    moreover from False have "py_range max_retries \<noteq> []" by (simp add: py_range_def)
    moreover from False have "int (last (py_range max_retries)) = max_retries - 1"
      by (simp add: py_range_def)
    ultimately show False by simp
  qed
  with False show ?thesis by simp
qed

lemma classify_report_Exhausted:
  assumes "fst (run_attempts loads tr (build_request self subject description) max_retries calls)
             = Exhausted"
  shows "classify_report loads tr self subject description max_retries calls
           = (Inr unknown_error, calls)"
proof -
  from assms have "max_retries \<le> 0" by (simp add: run_attempts_Exhausted)
  then have "run_attempts loads tr (build_request self subject description) max_retries calls
               = (Exhausted, calls)"
    by (simp add: run_attempts_def py_range_def)
  then show ?thesis by (simp add: classify_report_def)
qed

text \<open>
  C8. For a maximal attempt count (an integer that is not negative): when the attempt loop
  of \<open>classify_report\<close> runs out without returning, the function returns the mapping with
  the single entry \<open>failure_type: UnknownError\<close>, and it has made no transport call; the
  loop runs out exactly when the count is zero; for every positive count it does not run
  out, so that the statement after the loop is never reached.
\<close>

theorem unknown_error_iff_zero_attempts:
  assumes "0 \<le> max_retries"
  shows "(fst (run_attempts loads tr (build_request self subject description) max_retries calls)
            = Exhausted
          \<longrightarrow> classify_report loads tr self subject description max_retries calls
                = (Inr unknown_error, calls)) \<and>
         (fst (run_attempts loads tr (build_request self subject description) max_retries calls)
            = Exhausted
          \<longleftrightarrow> max_retries = 0) \<and>
         (0 < max_retries
          \<longrightarrow> fst (run_attempts loads tr (build_request self subject description) max_retries calls)
                \<noteq> Exhausted)"
proof (intro conjI impI)
  assume "fst (run_attempts loads tr (build_request self subject description) max_retries calls)
            = Exhausted"
  then show "classify_report loads tr self subject description max_retries calls
               = (Inr unknown_error, calls)"
    by (rule classify_report_Exhausted)
next
  from assms show "fst (run_attempts loads tr (build_request self subject description)
      max_retries calls) = Exhausted \<longleftrightarrow> max_retries = 0"
    by (simp add: run_attempts_Exhausted)
next
  assume "0 < max_retries"
  then show "fst (run_attempts loads tr (build_request self subject description) max_retries calls)
               \<noteq> Exhausted"
    by (simp add: run_attempts_Exhausted)
qed

text \<open>
  C8 at the counts zero and three: without an attempt the loop runs out and
  \<open>UnknownError\<close> is returned without a call; with three attempts, all failing, it does
  not run out.
\<close>

theorem unknown_error_iff_zero_attempts_witness:
  "(0::int) \<le> 0 \<and>
   fst (run_attempts (decoder_table [] expecting_value) (scripted [])
          (build_request sample_classifier ''GFIL, down'' ''Gun interlock'') 0 0) = Exhausted \<and>
   classify_report (decoder_table [] expecting_value) (scripted []) sample_classifier
     ''GFIL, down'' ''Gun interlock'' 0 0 = (Inr unknown_error, 0) \<and>
   (0::int) < 3 \<and>
   fst (run_attempts (decoder_table [] expecting_value) (scripted [])
          (build_request sample_classifier ''GFIL, down'' ''Gun interlock'') 3 0) \<noteq> Exhausted"
proof -
  let ?ld = "decoder_table [] expecting_value"
  let ?req = "build_request sample_classifier ''GFIL, down'' ''Gun interlock''"
  note T0 = unknown_error_iff_zero_attempts [where max_retries = 0 and loads = ?ld
      and tr = "scripted []" and self = sample_classifier and subject = "''GFIL, down''"
      and description = "''Gun interlock''" and calls = 0]
  note T3 = unknown_error_iff_zero_attempts [where max_retries = 3 and loads = ?ld
      and tr = "scripted []" and self = sample_classifier and subject = "''GFIL, down''"
      and description = "''Gun interlock''" and calls = 0]
  have z: "(0::int) \<le> 0" by simp
  have p: "(0::int) \<le> 3" "(0::int) < 3" by simp_all
  from T0 [OF z, THEN conjunct2, THEN conjunct1]
  have a: "fst (run_attempts ?ld (scripted []) ?req 0 0) = Exhausted" by simp
  from T0 [OF z, THEN conjunct1, rule_format, OF a]
  have b: "classify_report ?ld (scripted []) sample_classifier ''GFIL, down'' ''Gun interlock'' 0 0
             = (Inr unknown_error, 0)" .
  from T3 [OF p(1), THEN conjunct2, THEN conjunct2, rule_format, OF p(2)]
  have c: "fst (run_attempts ?ld (scripted []) ?req 3 0) \<noteq> Exhausted" .
  from z a b p(2) c show ?thesis by (intro conjI)
qed

lemma cut_iff:
  "cut sep s = Some (b, a) \<longleftrightarrow>
     s = b @ sep @ a \<and> (\<forall>x y. s = x @ sep @ y \<longrightarrow> length b \<le> length x)"
proof
  assume c: "cut sep s = Some (b, a)"
  have "s = b @ sep @ a" using c by (rule cut_append)
  moreover have "\<forall>x y. s = x @ sep @ y \<longrightarrow> length b \<le> length x"
    using cut_first [OF c] by simp
  ultimately show "s = b @ sep @ a \<and> (\<forall>x y. s = x @ sep @ y \<longrightarrow> length b \<le> length x)" ..
next
  assume r: "s = b @ sep @ a \<and> (\<forall>x y. s = x @ sep @ y \<longrightarrow> length b \<le> length x)"
  show "cut sep s = Some (b, a)"
  proof (rule cut_eqI)
    show "s = b @ sep @ a" using r by simp
  next
    fix x y assume "s = x @ sep @ y"
    with r show "length b \<le> length x" by blast
  qed
qed

lemma unfence_eq:
  "unfence t = Inr
     (case cut fence_json t of
        Some (pre, rest) \<Rightarrow> strip (upto fence (upto fence_json rest))
      | None \<Rightarrow>
          (case cut fence t of
             Some (pre, rest) \<Rightarrow> strip (upto fence rest)
           | None \<Rightarrow> t))"
proof (cases "cut fence_json t")
  case None
  show ?thesis
  proof (cases "cut fence t")
    case None
    with \<open>cut fence_json t = None\<close> show ?thesis
      by (simp add: unfence_def contains_cut)
  next
    case (Some p)
    obtain pre rest where "p = (pre, rest)" by (cases p)
    with Some have c: "cut fence t = Some (pre, rest)" by simp
    have "fence \<noteq> []" by (simp add: fence_def)
    from between_eq [OF this c] c \<open>cut fence_json t = None\<close> show ?thesis
      by (simp add: unfence_def contains_cut upto_fence_idem)
  qed
next
  case (Some p)
  obtain pre rest where "p = (pre, rest)" by (cases p)
  with Some have c: "cut fence_json t = Some (pre, rest)" by simp
  have "fence_json \<noteq> []" by (simp add: fence_json_def)
  from between_eq [OF this c] c show ?thesis
    by (simp add: unfence_def contains_cut)
qed

lemma try_block_Raises: "try_block loads (Raises e) rt = (rt, Inl e)"
  by (simp add: try_block_def)

lemma try_block_content:
  "unfence (strip content) = Inr t' \<Longrightarrow>
   try_block loads (Responds (Some content # others)) rt = (Some t', loads t')"
  by (simp add: try_block_def py_index_def)

lemma attempts_all_raise:
  assumes "\<And>i. k \<le> i \<Longrightarrow> i < n \<Longrightarrow> tr (c0 + i) req = Raises (es i)"
    and "\<And>i. k \<le> i \<Longrightarrow> i < n \<Longrightarrow> is_Exception (es i) \<and> \<not> is_JSONDecodeError (es i)"
    and "k < n" and "int n = m"
  shows "attempts loads tr req m [k..<n] (c0 + k) rt = (Return (api_error (es (n - 1))), c0 + n)"
  using assms
proof (induction "n - k" arbitrary: k rt)
  case 0
  then show ?case by simp
next
  case (Suc d)
  have up: "[k..<n] = k # [Suc k..<n]" using Suc.prems(3) by (simp add: upt_conv_Cons)
  have tb: "try_block loads (tr (c0 + k) req) rt = (rt, Inl (es k))"
    using Suc.prems(1) [of k] Suc.prems(3) by (simp add: try_block_Raises)
  have good: "is_Exception (es k)" "\<not> is_JSONDecodeError (es k)"
    using Suc.prems(2) [of k] Suc.prems(3) by simp_all
  show ?case
  proof (cases "Suc k = n")
    case True
    then have "int k = m - 1" "[Suc k..<n] = []" "n - 1 = k" using Suc.prems(4) by auto
    then show ?thesis using up tb good True by simp
  next
    case False
    with Suc.prems(3) have lt: "Suc k < n" by simp
    then have ne: "int k \<noteq> m - 1" using Suc.prems(4) by auto
    have "d = n - Suc k" using Suc.hyps(2) by simp
    from Suc.hyps(1) [OF this _ _ lt Suc.prems(4), of rt] Suc.prems(1,2)
    have "attempts loads tr req m [Suc k..<n] (c0 + Suc k) rt
            = (Return (api_error (es (n - 1))), c0 + n)" by simp
    then show ?thesis using up tb good ne by simp
  qed
qed

text \<open>
  The last handler. If every attempt's transport call raises an exception that is derived
  from \<open>Exception\<close> and is not a \<open>JSONDecodeError\<close>, then \<open>classify_report\<close> with a
  positive maximal attempt count calls the transport exactly that many times and returns
  the mapping \<open>failure_type: APIError, error: str(e)\<close> for the last exception \<open>e\<close>.
\<close>

lemma always_raising_gives_api_error:
  assumes "1 \<le> max_retries"
    and "\<And>i. i < nat max_retries \<Longrightarrow>
           tr (calls + i) (build_request self subject description) = Raises (es i)"
    and "\<And>i. i < nat max_retries \<Longrightarrow> is_Exception (es i) \<and> \<not> is_JSONDecodeError (es i)"
  shows "classify_report loads tr self subject description max_retries calls
           = (Inr (api_error (es (nat max_retries - 1))), calls + nat max_retries)"
proof -
  from assms(1) have "0 < nat max_retries" "int (nat max_retries) = max_retries" by simp_all
  from attempts_all_raise [of 0 "nat max_retries" tr calls _ es, OF _ _ this] assms(2,3)
  have "attempts loads tr (build_request self subject description) max_retries
          [0..<nat max_retries] (calls + 0) None
        = (Return (api_error (es (nat max_retries - 1))), calls + nat max_retries)"
    by simp
  then show ?thesis
    by (simp add: classify_report_def run_attempts_def py_range_def)
qed

lemma try_block_cases:
  assumes "try_block loads out rt = (rt', r)"
  shows "(\<exists>content others t. out = Responds (Some content # others) \<and>
            unfence (strip content) = Inr t \<and> rt' = Some t \<and> r = loads t) \<or>
         (rt' = rt \<and> (\<forall>content others. out \<noteq> Responds (Some content # others)) \<and>
            (\<exists>e. r = Inl e \<and> (out = Raises e \<or> (is_Exception e \<and> \<not> is_JSONDecodeError e))))"
proof (cases out)
  case (Raises x)
  with assms show ?thesis by (auto simp: try_block_def)
next
  case (Responds choices)
  show ?thesis
  proof (cases choices)
    case Nil
    with Responds assms show ?thesis by (auto simp: try_block_def py_index_def)
  next
    case (Cons c others)
    show ?thesis
    proof (cases c)
      case None
      with Cons Responds assms show ?thesis by (auto simp: try_block_def py_index_def)
    next
      case (Some content)
      obtain t where t: "unfence (strip content) = Inr t" using unfence_eq by blast
      from try_block_content [OF t, of loads others rt] Some Cons Responds assms
      have "rt' = Some t" "r = loads t" by simp_all
      with t Some Cons Responds show ?thesis by blast
    qed
  qed
qed


text \<open>
  When the loop returns. \<open>rt\<close> is \<open>result_text\<close> before attempt \<open>k\<close>; as long as it is
  unbound, a \<open>JSONDecodeError\<close> raised by the transport at the last attempt must be
  preceded by an attempt that binds it.
\<close>

lemma attempts_returns:
  assumes trE: "\<forall>i e. i < n \<and> tr (start + i) req = Raises e \<longrightarrow> is_Exception e"
    and ldE: "\<forall>t e. loads t = Inl e \<longrightarrow> is_Exception e"
    and fin: "rt = None \<longrightarrow>
       (\<forall>e. tr (start + (n - 1)) req = Raises e \<and> is_JSONDecodeError e \<longrightarrow>
          (\<exists>i. k \<le> i \<and> i < n - 1 \<and>
             (\<exists>content others. tr (start + i) req = Responds (Some content # others))))"
    and kn: "k < n" and nm: "int n = m"
  shows "\<exists>v c'. attempts loads tr req m [k..<n] (start + k) rt = (Return v, c')"
  using fin kn
proof (induction "n - k" arbitrary: k rt)
  case 0
  then show ?case by simp
next
  case (Suc d)
  from Suc.prems(2) have up: "[k..<n] = k # [Suc k..<n]" by (simp add: upt_conv_Cons)
  obtain rt' r where tb: "try_block loads (tr (start + k) req) rt = (rt', r)"
    by (cases "try_block loads (tr (start + k) req) rt")
  note tc = try_block_cases [OF tb]
  show ?case
  proof (cases r)
    case (Inr v')
    with up tb show ?thesis by simp
  next
    case (Inl e)
    have exc: "is_Exception e"
    proof -
      from tc Inl consider
        (content) t where "loads t = Inl e"
        | (raised) "tr (start + k) req = Raises e"
        | (own) "is_Exception e"
        by auto
      then show ?thesis
      proof cases
        case content
        with ldE show ?thesis by blast
      next
        case raised
        with trE Suc.prems(2) show ?thesis by blast
      next
        case own
        then show ?thesis .
      qed
    qed
    show ?thesis
    proof (cases "int k = m - 1")
      case True
      with nm have last: "k = n - 1" by auto
      show ?thesis
      proof (cases "is_JSONDecodeError e")
        case J: True
        have "rt' \<noteq> None"
        proof
          assume N: "rt' = None"
          with tc Inl J have "rt = None" "tr (start + k) req = Raises e" by auto
          with Suc.prems(1) J last obtain i where "k \<le> i" "i < n - 1" by blast
          with last show False by simp
        qed
        then obtain raw where "rt' = Some raw" by auto
        with up tb Inl J True show ?thesis by simp
      next
        case J: False
        with up tb Inl exc True show ?thesis by simp
      qed
    next
      case False
      with nm Suc.prems(2) have lt: "Suc k < n" by auto
      have d: "d = n - Suc k" using Suc.hyps(2) by simp
      have inv: "rt' = None \<longrightarrow>
         (\<forall>e. tr (start + (n - 1)) req = Raises e \<and> is_JSONDecodeError e \<longrightarrow>
            (\<exists>i. Suc k \<le> i \<and> i < n - 1 \<and>
               (\<exists>content others. tr (start + i) req = Responds (Some content # others))))"
      proof (intro impI allI)
        fix x assume N: "rt' = None"
          and x: "tr (start + (n - 1)) req = Raises x \<and> is_JSONDecodeError x"
        from tc N have same: "rt = None"
          and nc: "\<forall>content others. tr (start + k) req \<noteq> Responds (Some content # others)"
          by auto
        from Suc.prems(1) same x obtain i content others where
          i: "k \<le> i" "i < n - 1" "tr (start + i) req = Responds (Some content # others)"
          by blast
        from i(3) nc have "i \<noteq> k" by auto
        with i show "\<exists>i. Suc k \<le> i \<and> i < n - 1 \<and>
               (\<exists>content others. tr (start + i) req = Responds (Some content # others))"
          by (intro exI [of _ i]) auto
      qed
      from Suc.hyps(1) [OF d inv lt] obtain v c' where
        "attempts loads tr req m [Suc k..<n] (start + Suc k) rt' = (Return v, c')" by blast
      with up tb Inl False exc show ?thesis by simp
    qed
  qed
qed

lemma sentinel_failure_type: "sentinel v \<Longrightarrow> failure_type_is_string v"
  by (auto simp: sentinel_def parse_error_def api_error_def unknown_error_def)



lemma classify_report_returns:
  assumes "\<forall>i e. i < nat max_retries \<and>
             tr (calls + i) (build_request self subject description) = Raises e
             \<longrightarrow> is_Exception e"
    and "\<forall>t e. loads t = Inl e \<longrightarrow> is_Exception e"
    and "\<forall>e. tr (calls + (nat max_retries - 1)) (build_request self subject description) = Raises e \<and>
             is_JSONDecodeError e
           \<longrightarrow> (\<exists>i. i < nat max_retries - 1 \<and>
                  (\<exists>content others. tr (calls + i) (build_request self subject description)
                     = Responds (Some content # others)))"
  shows "\<exists>v calls'. classify_report loads tr self subject description max_retries calls
           = (Inr v, calls')"
proof (cases "0 < max_retries")
  case False
  then have "run_attempts loads tr (build_request self subject description) max_retries calls
               = (Exhausted, calls)"
    by (simp add: run_attempts_def py_range_def)
  then show ?thesis by (simp add: classify_report_def)
next
  case True
  let ?req = "build_request self subject description"
  from True have n: "0 < nat max_retries" "int (nat max_retries) = max_retries" by simp_all
  have fin: "(None :: string option) = None \<longrightarrow>
       (\<forall>e. tr (calls + (nat max_retries - 1)) ?req = Raises e \<and> is_JSONDecodeError e \<longrightarrow>
          (\<exists>i. 0 \<le> i \<and> i < nat max_retries - 1 \<and>
             (\<exists>content others. tr (calls + i) ?req = Responds (Some content # others))))"
    using assms(3) by auto
  from attempts_returns [where loads = loads and tr = tr and req = ?req and start = calls
      and n = "nat max_retries" and m = max_retries and rt = None and k = 0,
      OF assms(1) assms(2) fin n]
  obtain v c' where "attempts loads tr ?req max_retries [0..<nat max_retries] (calls + 0) None
                 = (Return v, c')" by blast
  then have "run_attempts loads tr ?req max_retries calls = (Return v, c')"
    by (simp add: run_attempts_def py_range_def)
  then show ?thesis by (simp add: classify_report_def)
qed


lemma attempts_all_unparsed:
  assumes "\<And>i rt. k \<le> i \<Longrightarrow> i < n \<Longrightarrow>
             try_block loads (tr (c0 + i) req) rt = (Some (p i), Inl (JSONDecodeError (msg i)))"
    and "k < n" and "int n = m"
  shows "attempts loads tr req m [k..<n] (c0 + k) rt
           = (Return (parse_error (p (n - 1)) (JSONDecodeError (msg (n - 1)))), c0 + n)"
  using assms
proof (induction "n - k" arbitrary: k rt)
  case 0
  then show ?case by simp
next
  case (Suc d)
  have up: "[k..<n] = k # [Suc k..<n]" using Suc.prems(2) by (simp add: upt_conv_Cons)
  have tb: "try_block loads (tr (c0 + k) req) rt = (Some (p k), Inl (JSONDecodeError (msg k)))"
    using Suc.prems(1) [of k] Suc.prems(2) by simp
  show ?case
  proof (cases "Suc k = n")
    case True
    then have "int k = m - 1" "[Suc k..<n] = []" "n - 1 = k" using Suc.prems(3) by auto
    then show ?thesis using up tb True by simp
  next
    case False
    with Suc.prems(2) have lt: "Suc k < n" by simp
    then have ne: "int k \<noteq> m - 1" using Suc.prems(3) by auto
    have "d = n - Suc k" using Suc.hyps(2) by simp
    from Suc.hyps(1) [OF this _ lt Suc.prems(3), of "Some (p k)"] Suc.prems(1)
    have "attempts loads tr req m [Suc k..<n] (c0 + Suc k) (Some (p k))
            = (Return (parse_error (p (n - 1)) (JSONDecodeError (msg (n - 1)))), c0 + n)" by simp
    then show ?thesis using up tb ne by simp
  qed
qed

lemma cut_None_iff: "cut sep s = None \<longleftrightarrow> \<not> contains sep s"
  using contains_cut [of sep s] by blast

lemma no_occurrence:
  assumes "\<not> contains sep s"
  shows "s \<noteq> x @ sep @ y"
proof -
  from assms have "cut sep s = None" by (simp add: cut_None_iff)
  then show ?thesis by (rule cut_None)
qed

lemma upto_plain:
  assumes "\<not> contains sep s"
  shows "upto sep s = s"
proof -
  from assms have "cut sep s = None" by (simp add: cut_None_iff)
  then show ?thesis by (simp add: upto_def)
qed

lemma no_fence_no_fence_json:
  assumes "\<not> contains fence s"
  shows "\<not> contains fence_json s"
proof
  assume "contains fence_json s"
  then obtain q where "cut fence_json s = Some q" by (auto simp: contains_cut)
  then obtain b a where "cut fence_json s = Some (b, a)" by (cases q) simp
  from cut_append [OF this] have "s = b @ fence @ (''json'' @ a)"
    by (simp add: fence_def fence_json_def)
  with no_occurrence [OF assms] show False by blast
qed

lemma unfence_plain: "\<not> contains fence t \<Longrightarrow> unfence t = Inr t"
  using no_fence_no_fence_json [of t] by (simp add: unfence_def)

text \<open>
  C3 (as amended). Here \<open>t\<close> is the stripped response text and \<open>cut sep t = Some (pre, rest)\<close>
  says that the first occurrence of \<open>sep\<close> splits \<open>t\<close> into \<open>pre\<close> and \<open>rest\<close>.
  Without a fence the whole of \<open>t\<close> is parsed. With a fence opened by the tag \<open>json\<close>
  the parsed text is the stripped text between the first such opening and the next fence
  (when that fence is not followed by a further backquote), or the stripped remainder
  when no fence follows. Without such an opening, the same holds from the first fence on,
  so whatever tag follows that fence is part of the parsed text. The \<open>try\<close> block hands
  exactly this text to the decoder; and when, for a positive maximal attempt count, the
  decoder rejects the text of every attempt with a \<open>JSONDecodeError\<close>, the function
  returns \<open>failure_type: ParseError\<close> with the text parsed last as \<open>raw_response\<close> and
  the last message as \<open>error\<close>, after exactly that many calls.
\<close>

theorem fenced_content_is_parsed:
  "(\<not> contains fence t \<longrightarrow> unfence t = Inr t) \<and>
   (cut fence_json t = Some (pre, rest) \<and> cut fence rest = Some (body, post) \<and> \<not> prefix ''`'' post
      \<longrightarrow> unfence t = Inr (strip body)) \<and>
   (cut fence_json t = Some (pre, rest) \<and> \<not> contains fence rest
      \<longrightarrow> unfence t = Inr (strip rest)) \<and>
   (\<not> contains fence_json t \<and> cut fence t = Some (pre, rest) \<and> cut fence rest = Some (body, post)
      \<longrightarrow> unfence t = Inr (strip body)) \<and>
   (\<not> contains fence_json t \<and> cut fence t = Some (pre, rest) \<and> \<not> contains fence rest
      \<longrightarrow> unfence t = Inr (strip rest)) \<and>
   (unfence (strip content) = Inr parsed
      \<longrightarrow> try_block loads (Responds (Some content # others)) rt = (Some parsed, loads parsed)) \<and>
   (1 \<le> max_retries \<and>
    (\<forall>i < nat max_retries.
       tr (calls + i) (build_request self subject description) = Responds (Some (contents i) # rests i) \<and>
       unfence (strip (contents i)) = Inr (texts i) \<and>
       loads (texts i) = Inl (JSONDecodeError (msgs i)))
      \<longrightarrow> classify_report loads tr self subject description max_retries calls
            = (Inr (parse_error (texts (nat max_retries - 1))
                      (JSONDecodeError (msgs (nat max_retries - 1)))),
               calls + nat max_retries))"
proof -
  have p1: "\<not> contains fence t \<longrightarrow> unfence t = Inr t"
    using unfence_plain by blast
  have p2: "cut fence_json t = Some (pre, rest) \<and> cut fence rest = Some (body, post) \<and> \<not> prefix ''`'' post
      \<longrightarrow> unfence t = Inr (strip body)"
    by (simp add: unfence_eq upto_fence_json)
  have p3: "cut fence_json t = Some (pre, rest) \<and> \<not> contains fence rest
      \<longrightarrow> unfence t = Inr (strip rest)"
    using no_fence_no_fence_json [of rest]
    by (simp add: unfence_eq upto_plain)
  have p4: "\<not> contains fence_json t \<and> cut fence t = Some (pre, rest) \<and> cut fence rest = Some (body, post)
      \<longrightarrow> unfence t = Inr (strip body)"
  proof (intro impI, elim conjE)
    assume a: "\<not> contains fence_json t" "cut fence t = Some (pre, rest)"
      "cut fence rest = Some (body, post)"
    from a(1) have "cut fence_json t = None" by (simp add: cut_None_iff)
    with a(2,3) show "unfence t = Inr (strip body)" by (simp add: unfence_eq upto_def)
  qed
  have p5: "\<not> contains fence_json t \<and> cut fence t = Some (pre, rest) \<and> \<not> contains fence rest
      \<longrightarrow> unfence t = Inr (strip rest)"
  proof (intro impI, elim conjE)
    assume a: "\<not> contains fence_json t" "cut fence t = Some (pre, rest)"
      "\<not> contains fence rest"
    from a(1) have "cut fence_json t = None" by (simp add: cut_None_iff)
    with a(2,3) show "unfence t = Inr (strip rest)" by (simp add: unfence_eq upto_plain)
  qed
  have p6: "unfence (strip content) = Inr parsed
      \<longrightarrow> try_block loads (Responds (Some content # others)) rt = (Some parsed, loads parsed)"
    using try_block_content by blast
  have p7: "classify_report loads tr self subject description max_retries calls
            = (Inr (parse_error (texts (nat max_retries - 1))
                      (JSONDecodeError (msgs (nat max_retries - 1)))),
               calls + nat max_retries)"
    if m: "1 \<le> max_retries"
      and all: "\<forall>i < nat max_retries.
       tr (calls + i) (build_request self subject description) = Responds (Some (contents i) # rests i) \<and>
       unfence (strip (contents i)) = Inr (texts i) \<and>
       loads (texts i) = Inl (JSONDecodeError (msgs i))"
  proof -
    let ?req = "build_request self subject description"
    have tb: "try_block loads (tr (calls + i) ?req) rt
                = (Some (texts i), Inl (JSONDecodeError (msgs i)))"
      if "i < nat max_retries" for i rt
    proof -
      from all that have a: "tr (calls + i) ?req = Responds (Some (contents i) # rests i)"
        and b: "unfence (strip (contents i)) = Inr (texts i)"
        and c: "loads (texts i) = Inl (JSONDecodeError (msgs i))" by blast+
      from try_block_content [OF b, of loads "rests i" rt] a c show ?thesis by simp
    qed
    from m have "0 < nat max_retries" "int (nat max_retries) = max_retries" by simp_all
    from attempts_all_unparsed [of 0 "nat max_retries" loads tr calls ?req texts msgs, OF _ this] tb
    have "attempts loads tr ?req max_retries [0..<nat max_retries] (calls + 0) None
          = (Return (parse_error (texts (nat max_retries - 1))
                      (JSONDecodeError (msgs (nat max_retries - 1)))), calls + nat max_retries)"
      by simp
    then show ?thesis
      by (simp add: classify_report_def run_attempts_def py_range_def)
  qed
  from p1 p2 p3 p4 p5 p6 p7 show ?thesis by blast
qed

lemma py_range_3: "py_range 3 = [0, 1, 2]"
  by (simp add: py_range_def upt_rec)


text \<open>
  An exception that is not derived from \<open>Exception\<close>, such as the \<open>KeyboardInterrupt\<close>
  of an interrupted call, is caught by neither handler: it leaves the function at the
  first attempt.
\<close>

lemma keyboard_interrupt_escapes:
  "classify_report (decoder_table [] expecting_value)
      (always (Raises (NonException ''KeyboardInterrupt'')))
      sample_classifier ''GFIL, down'' ''Gun interlock'' 3 0
    = (Inl (NonException ''KeyboardInterrupt''), 1)"
  by (simp add: classify_report_def run_attempts_def py_range_3 always_def try_block_def)

text \<open>
  C2, at a transport that raises \<open>json.JSONDecodeError\<close> at each of the three attempts.
  The exception is caught by the first handler, which reads \<open>result_text\<close> at the last
  attempt (line 147); no attempt has bound the variable, so after three transport calls
  an \<open>UnboundLocalError\<close> leaves \<open>classify_report\<close> and no \<open>APIError\<close> mapping is
  returned.
\<close>

theorem unbound_result_text_escapes:
  "classify_report (decoder_table [] expecting_value)
      (always (Raises (JSONDecodeError expecting_value)))
      sample_classifier ''GFIL, down'' ''Gun interlock'' 3 0
    = (Inl (UnboundLocalError result_text_unbound), 3)"
  by (simp add: classify_report_def run_attempts_def py_range_3 always_def try_block_def)

text \<open>
  C3 as stated fails for a fence with another tag than \<open>json\<close>: the tag stays in the text
  that is parsed, so the fenced JSON object is rejected.
\<close>

theorem tagged_fence_keeps_tag:
  \<open>unfence (strip ''```JSON\<newline>{"failure_type": "Cooling System"}\<newline>```'')
     = Inr ''JSON\<newline>{"failure_type": "Cooling System"}'' \<and>
   classify_report
      (decoder_table [(''{"failure_type": "Cooling System"}'',
                       PDict [(''failure_type'', PStr ''Cooling System'')])] expecting_value)
      (always (Responds [Some ''```JSON\<newline>{"failure_type": "Cooling System"}\<newline>```'']))
      sample_classifier ''GFIL, down'' ''Gun interlock'' 1 0
    = (Inr (parse_error ''JSON\<newline>{"failure_type": "Cooling System"}''
              (JSONDecodeError expecting_value)), 1)\<close>
proof -
  have u: \<open>unfence (strip ''```JSON\<newline>{"failure_type": "Cooling System"}\<newline>```'')
     = Inr ''JSON\<newline>{"failure_type": "Cooling System"}''\<close>
    by (simp add: unfence_eq upto_def strip_def lstrip_def rstrip_def isspace_def
        fence_def fence_json_def)
  have r: "py_range 1 = [0]" by (simp add: py_range_def)
  show ?thesis
    by (simp add: u classify_report_def run_attempts_def r always_def try_block_content [OF u]
        decoder_table_def)
qed


text \<open>
  Each part of C3 at a concrete response.
\<close>

theorem fenced_content_is_parsed_witness:
  \<open>\<not> contains fence ''not json'' \<and> unfence ''not json'' = Inr ''not json'' \<and>
   cut fence_json ''Sure:\<newline>```json\<newline>{"failure_type": "Cooling System"}\<newline>```\<newline>Done''
     = Some (''Sure:\<newline>'', ''\<newline>{"failure_type": "Cooling System"}\<newline>```\<newline>Done'') \<and>
   cut fence ''\<newline>{"failure_type": "Cooling System"}\<newline>```\<newline>Done''
     = Some (''\<newline>{"failure_type": "Cooling System"}\<newline>'', ''\<newline>Done'') \<and>
   \<not> prefix ''`'' ''\<newline>Done'' \<and>
   unfence ''Sure:\<newline>```json\<newline>{"failure_type": "Cooling System"}\<newline>```\<newline>Done''
     = Inr ''{"failure_type": "Cooling System"}'' \<and>
   cut fence_json ''```json {}'' = Some ('''', '' {}'') \<and> \<not> contains fence '' {}'' \<and>
   unfence ''```json {}'' = Inr ''{}'' \<and>
   \<not> contains fence_json ''```\<newline>{}\<newline>```'' \<and>
   cut fence ''```\<newline>{}\<newline>```'' = Some ('''', ''\<newline>{}\<newline>```'') \<and>
   cut fence ''\<newline>{}\<newline>```'' = Some (''\<newline>{}\<newline>'', '''') \<and>
   unfence ''```\<newline>{}\<newline>```'' = Inr ''{}'' \<and>
   \<not> contains fence_json ''``` {}'' \<and> cut fence ''``` {}'' = Some ('''', '' {}'') \<and>
   unfence ''``` {}'' = Inr ''{}'' \<and>
   try_block (decoder_table [] expecting_value) (Responds [Some '' ``` {}'']) None
     = (Some ''{}'', Inl (JSONDecodeError expecting_value)) \<and>
   (1::int) \<le> 2 \<and>
   scripted (map (\<lambda>c. Responds [Some c]) [''not json'', ''```\<newline>still not json\<newline>```''])
      0 (build_request sample_classifier ''GFIL, down'' ''Gun interlock'')
     = Responds [Some ''not json''] \<and>
   scripted (map (\<lambda>c. Responds [Some c]) [''not json'', ''```\<newline>still not json\<newline>```''])
      1 (build_request sample_classifier ''GFIL, down'' ''Gun interlock'')
     = Responds [Some ''```\<newline>still not json\<newline>```''] \<and>
   unfence (strip ''```\<newline>still not json\<newline>```'') = Inr ''still not json'' \<and>
   decoder_table [] expecting_value ''not json'' = Inl (JSONDecodeError expecting_value) \<and>
   decoder_table [] expecting_value ''still not json'' = Inl (JSONDecodeError expecting_value) \<and>
   classify_report (decoder_table [] expecting_value)
      (scripted (map (\<lambda>c. Responds [Some c]) [''not json'', ''```\<newline>still not json\<newline>```'']))
      sample_classifier ''GFIL, down'' ''Gun interlock'' 2 0
    = (Inr (PDict [(''failure_type'', PStr ''ParseError''), (''raw_response'', PStr ''still not json''),
                   (''error'', PStr expecting_value)]), 2)\<close>
proof -
  note ev = strip_def lstrip_def rstrip_def isspace_def fence_def fence_json_def
  let ?ld = "decoder_table [] expecting_value"
  let ?req = "build_request sample_classifier ''GFIL, down'' ''Gun interlock''"
  let ?cs = \<open>[''not json'', ''```\<newline>still not json\<newline>```'']\<close>
  let ?ts = \<open>[''not json'', ''still not json'']\<close>
  let ?tj = \<open>''Sure:\<newline>```json\<newline>{"failure_type": "Cooling System"}\<newline>```\<newline>Done''\<close>
  have a1: "\<not> contains fence ''not json''" by (simp add: ev)
  have b1: \<open>cut fence_json ?tj
     = Some (''Sure:\<newline>'', ''\<newline>{"failure_type": "Cooling System"}\<newline>```\<newline>Done'')\<close>
    by (simp add: ev)
  have b2: \<open>cut fence ''\<newline>{"failure_type": "Cooling System"}\<newline>```\<newline>Done''
     = Some (''\<newline>{"failure_type": "Cooling System"}\<newline>'', ''\<newline>Done'')\<close>
    by (simp add: ev)
  have b3: "\<not> prefix ''`'' ''\<newline>Done''" by simp
  have c1: "cut fence_json ''```json {}'' = Some ('''', '' {}'')" by (simp add: ev)
  have c2: "\<not> contains fence '' {}''" by (simp add: ev)
  have d1: "\<not> contains fence_json ''```\<newline>{}\<newline>```''" by (simp add: ev)
  have d2: "cut fence ''```\<newline>{}\<newline>```'' = Some ('''', ''\<newline>{}\<newline>```'')" by (simp add: ev)
  have d3: "cut fence ''\<newline>{}\<newline>```'' = Some (''\<newline>{}\<newline>'', '''')" by (simp add: ev)
  have e1: "\<not> contains fence_json ''``` {}''" by (simp add: ev)
  have e2: "cut fence ''``` {}'' = Some ('''', '' {}'')" by (simp add: ev)
  have f1: "unfence (strip '' ``` {}'') = Inr ''{}''"
    by (simp add: unfence_eq upto_def ev)
  have g1: "(1::int) \<le> 2" by simp
  have g2: "scripted (map (\<lambda>c. Responds [Some c]) ?cs) (0 + i) ?req = Responds (Some (?cs ! i) # []) \<and>
      unfence (strip (?cs ! i)) = Inr (?ts ! i) \<and>
      ?ld (?ts ! i) = Inl (JSONDecodeError expecting_value)" if "i < nat 2" for i
    using that
    by (auto simp: scripted_def nth_Cons' less_Suc_eq numeral_2_eq_2 unfence_eq upto_def ev
        decoder_table_def)
  note P = fenced_content_is_parsed
  note P1 = P [THEN conjunct1, rule_format]
  note P2 = P [THEN conjunct2, THEN conjunct1, rule_format]
  note P3 = P [THEN conjunct2, THEN conjunct2, THEN conjunct1, rule_format]
  note P4 = P [THEN conjunct2, THEN conjunct2, THEN conjunct2, THEN conjunct1, rule_format]
  note P5 = P [THEN conjunct2, THEN conjunct2, THEN conjunct2, THEN conjunct2, THEN conjunct1,
      rule_format]
  note P6 = P [THEN conjunct2, THEN conjunct2, THEN conjunct2, THEN conjunct2, THEN conjunct2,
      THEN conjunct1, rule_format]
  note P7 = P [THEN conjunct2, THEN conjunct2, THEN conjunct2, THEN conjunct2, THEN conjunct2,
      THEN conjunct2, rule_format]
  have A: "unfence ''not json'' = Inr ''not json''"
    using P1 [OF a1] .
  have B: \<open>unfence ?tj = Inr ''{"failure_type": "Cooling System"}''\<close>
    using P2 [OF conjI [OF b1 conjI [OF b2 b3]]] by (simp add: ev)
  have C: "unfence ''```json {}'' = Inr ''{}''"
    using P3 [OF conjI [OF c1 c2]] by (simp add: ev)
  have D: "unfence ''```\<newline>{}\<newline>```'' = Inr ''{}''"
    using P4 [OF conjI [OF d1 conjI [OF d2 d3]]] by (simp add: ev)
  have E: "unfence ''``` {}'' = Inr ''{}''"
    using P5 [OF conjI [OF e1 conjI [OF e2 c2]]] by (simp add: ev)
  have F: "try_block ?ld (Responds [Some '' ``` {}'']) None
     = (Some ''{}'', Inl (JSONDecodeError expecting_value))"
    using P6 [OF f1, of ?ld "[]" None] by (simp add: decoder_table_def)
  have g2': "\<forall>i < nat 2.
      scripted (map (\<lambda>c. Responds [Some c]) ?cs) (0 + i) ?req = Responds (Some (?cs ! i) # []) \<and>
      unfence (strip (?cs ! i)) = Inr (?ts ! i) \<and>
      ?ld (?ts ! i) = Inl (JSONDecodeError expecting_value)"
    using g2 by blast
  have G: "classify_report ?ld (scripted (map (\<lambda>c. Responds [Some c]) ?cs))
      sample_classifier ''GFIL, down'' ''Gun interlock'' 2 0
    = (Inr (PDict [(''failure_type'', PStr ''ParseError''), (''raw_response'', PStr ''still not json''),
                   (''error'', PStr expecting_value)]), 2)"
    using P7 [of 2 "scripted (map (\<lambda>c. Responds [Some c]) ?cs)" 0 sample_classifier
        "''GFIL, down''" "''Gun interlock''" "(!) ?cs" "\<lambda>i. []" "(!) ?ts" ?ld "\<lambda>i. expecting_value",
        OF conjI [OF g1 g2']]
    by (simp add: parse_error_def)
  have g3: "scripted (map (\<lambda>c. Responds [Some c]) ?cs) 0 ?req = Responds [Some ''not json'']"
    "scripted (map (\<lambda>c. Responds [Some c]) ?cs) 1 ?req
       = Responds [Some ''```\<newline>still not json\<newline>```'']"
    "unfence (strip ''```\<newline>still not json\<newline>```'') = Inr ''still not json''"
    "?ld ''not json'' = Inl (JSONDecodeError expecting_value)"
    "?ld ''still not json'' = Inl (JSONDecodeError expecting_value)"
    by (simp_all add: scripted_def unfence_eq upto_def ev decoder_table_def)
  from a1 A b1 b2 b3 B c1 c2 C d1 d2 d3 D e1 e2 E F g1 g3 G show ?thesis
    by (intro conjI)
qed

section \<open>Properties of the classification batch runner\<close>

lemma map_of_set_values:
  "map_of (set_values cs name vs) = (map_of cs)(name \<mapsto> vs)"
  by (induction cs name vs rule: set_values.induct) (auto simp: fun_eq_iff)

lemma names_set_values:
  "map fst (set_values cs name vs) = (if name \<in> fst ` set cs then map fst cs else map fst cs @ [name])"
  by (induction cs name vs rule: set_values.induct) auto

lemma get_column_set_column:
  "get_column (set_column df name vs) name' =
     (if name' = name then Inr vs else get_column df name')"
  by (simp add: get_column_def set_column_def map_of_set_values)

lemma names_set_column:
  "column_names (set_column df name vs) =
     (if name \<in> set (column_names df) then column_names df else column_names df @ [name])"
  by (simp add: column_names_def set_column_def names_set_values)

lemma names_two_columns:
  "column_names (set_column (set_column df oc xs) ft ys) =
     column_names df @ (if oc \<in> set (column_names df) then [] else [oc]) @
     (if ft \<in> set (column_names df) \<or> ft = oc then [] else [ft])"
  by (auto simp: names_set_column)

lemma classify_dataframe_eq:
  assumes "progress_apply pd loads tr self (h df) sc dc calls = (Inr xs, calls')"
  shows "classify_dataframe pd loads tr self h df sc dc oc calls =
     (Inr df,
      h(df := set_column (set_column (h df) oc xs) ''failure_type''
                (map_series pd (map label_of xs))),
      calls')"
  using assms by (simp add: classify_dataframe_def get_column_set_column Let_def)

lemma classify_dataframe_Inr:
  assumes "classify_dataframe pd loads tr self h df sc dc oc calls = (Inr r, h', calls')"
  shows "\<exists>xs. progress_apply pd loads tr self (h df) sc dc calls = (Inr xs, calls') \<and>
           r = df \<and>
           h' = h(df := set_column (set_column (h df) oc xs) ''failure_type''
                          (map_series pd (map label_of xs)))"
proof (cases "progress_apply pd loads tr self (h df) sc dc calls")
  case (Pair a c)
  show ?thesis
  proof (cases a)
    case (Inl e)
    with Pair assms show ?thesis by (simp add: classify_dataframe_def)
  next
    case (Inr xs)
    with Pair have p: "progress_apply pd loads tr self (h df) sc dc calls = (Inr xs, c)" by simp
    from classify_dataframe_eq [where h = h and df = df and oc = oc, OF p] assms p show ?thesis by auto
  qed
qed

text \<open>
  The results of the rows, with the number of transport calls before each row: the first
  row starts where the run starts, each later row where the one before has ended.
\<close>

lemma classify_rows_results:
  assumes "classify_rows pd loads tr self df sc dc rows calls = (Inr results, calls')"
  shows "length results = length rows \<and>
     (\<exists>cs. length cs = Suc (length rows) \<and> cs ! 0 = calls \<and> cs ! length rows = calls' \<and>
        (\<forall>k < length rows. \<exists>s d.
           row_text pd df (rows ! k) sc = Inr s \<and> row_text pd df (rows ! k) dc = Inr d \<and>
           classify_report loads tr self s d 3 (cs ! k) = (Inr (results ! k), cs ! Suc k)))"
  using assms
proof (induction rows arbitrary: calls results)
  case Nil
  then have "results = []" "calls' = calls" by simp_all
  then show ?case by (intro conjI exI [of _ "[calls]"]) simp_all
next
  case (Cons i rest)
  from Cons.prems obtain s d v c vs where
    s: "row_text pd df i sc = Inr s" and d: "row_text pd df i dc = Inr d"
    and v: "classify_report loads tr self s d 3 calls = (Inr v, c)"
    and vs: "classify_rows pd loads tr self df sc dc rest c = (Inr vs, calls')"
    and r: "results = v # vs"
    by (auto split: sum.splits prod.splits)
  from Cons.IH [OF vs] obtain cs where len: "length vs = length rest"
    and cs: "length cs = Suc (length rest)" "cs ! 0 = c" "cs ! length rest = calls'"
    and ih: "\<And>k. k < length rest \<Longrightarrow> \<exists>s d.
        row_text pd df (rest ! k) sc = Inr s \<and> row_text pd df (rest ! k) dc = Inr d \<and>
        classify_report loads tr self s d 3 (cs ! k) = (Inr (vs ! k), cs ! Suc k)"
    by blast
  have each: "\<exists>s d.
        row_text pd df ((i # rest) ! k) sc = Inr s \<and> row_text pd df ((i # rest) ! k) dc = Inr d \<and>
        classify_report loads tr self s d 3 ((calls # cs) ! k)
          = (Inr (results ! k), (calls # cs) ! Suc k)"
    if "k < length (i # rest)" for k
  proof (cases k)
    case 0
    with s d v r cs(2) show ?thesis by auto
  next
    case (Suc j)
    with that have "j < length rest" by simp
    from ih [OF this] Suc r show ?thesis by simp
  qed
  have "length (calls # cs) = Suc (length (i # rest))" "(calls # cs) ! 0 = calls"
    "(calls # cs) ! length (i # rest) = calls'"
    using cs by simp_all
  with each have "\<exists>cs. length cs = Suc (length (i # rest)) \<and> cs ! 0 = calls \<and>
      cs ! length (i # rest) = calls' \<and>
      (\<forall>k < length (i # rest). \<exists>s d.
           row_text pd df ((i # rest) ! k) sc = Inr s \<and> row_text pd df ((i # rest) ! k) dc = Inr d \<and>
           classify_report loads tr self s d 3 (cs ! k) = (Inr (results ! k), cs ! Suc k))"
    by (intro exI [of _ "calls # cs"]) blast
  with len r show ?case by simp
qed

lemma classify_rows_returns:
  assumes tr: "\<forall>n req e. tr n req = Raises e \<longrightarrow> is_Exception e \<and> \<not> is_JSONDecodeError e"
    and ld: "\<forall>t e. loads t = Inl e \<longrightarrow> is_Exception e"
    and cells: "\<forall>i \<in> set rows. \<exists>s d. row_text pd df i sc = Inr s \<and> row_text pd df i dc = Inr d"
  shows "\<exists>results c. classify_rows pd loads tr self df sc dc rows calls = (Inr results, c)"
  using cells
proof (induction rows arbitrary: calls)
  case Nil
  then show ?case by simp
next
  case (Cons i rest)
  from Cons.prems obtain s d where s: "row_text pd df i sc = Inr s"
    and d: "row_text pd df i dc = Inr d" by auto
  have "\<exists>v c. classify_report loads tr self s d 3 calls = (Inr v, c)"
  proof (rule classify_report_returns)
    from tr show "\<forall>i e. i < nat 3 \<and> tr (calls + i) (build_request self s d) = Raises e
        \<longrightarrow> is_Exception e" by blast
    from ld show "\<forall>t e. loads t = Inl e \<longrightarrow> is_Exception e" .
    from tr show "\<forall>e. tr (calls + (nat 3 - 1)) (build_request self s d) = Raises e \<and>
        is_JSONDecodeError e
        \<longrightarrow> (\<exists>i. i < nat 3 - 1 \<and>
               (\<exists>content others. tr (calls + i) (build_request self s d)
                  = Responds (Some content # others)))" by blast
  qed
  then obtain v c where v: "classify_report loads tr self s d 3 calls = (Inr v, c)" by blast
  from Cons.IH [of c] Cons.prems
  obtain vs c' where "classify_rows pd loads tr self df sc dc rest c = (Inr vs, c')" by auto
  with s d v show ?case by simp
qed

lemma progress_apply_rows:
  assumes "progress_apply pd loads tr self df sc dc calls = (Inr xs, calls')"
    and "0 < nrows df" and "cols df \<noteq> []"
  shows "\<exists>results. classify_rows pd loads tr self df sc dc [0 ..< nrows df] calls
                     = (Inr results, calls') \<and> xs = rows_series pd results"
  using assms by (auto simp: progress_apply_def split: prod.splits sum.splits)


lemma classify_dataframe_returns:
  assumes "0 < nrows (h df)" and "cols (h df) \<noteq> []"
    and "\<forall>k < nrows (h df). \<exists>s d.
           row_text pd (h df) k sc = Inr s \<and> row_text pd (h df) k dc = Inr d"
    and "\<forall>n req e. tr n req = Raises e \<longrightarrow> is_Exception e \<and> \<not> is_JSONDecodeError e"
    and "\<forall>t e. loads t = Inl e \<longrightarrow> is_Exception e"
  shows "\<exists>h' calls'. classify_dataframe pd loads tr self h df sc dc oc calls = (Inr df, h', calls')"
proof -
  from assms(3) have "\<forall>i \<in> set [0 ..< nrows (h df)]. \<exists>s d.
      row_text pd (h df) i sc = Inr s \<and> row_text pd (h df) i dc = Inr d" by simp
  from classify_rows_returns [OF assms(4) assms(5) this]
  obtain results c where
    "classify_rows pd loads tr self (h df) sc dc [0 ..< nrows (h df)] calls = (Inr results, c)"
    by blast
  with assms(1,2) have "progress_apply pd loads tr self (h df) sc dc calls
      = (Inr (rows_series pd results), c)"
    by (simp add: progress_apply_def)
  from classify_dataframe_eq [where h = h and df = df and oc = oc, OF this] show ?thesis by blast
qed



text \<open>
  C10 (as amended). For a table with distinct column names: whenever
  \<open>classify_dataframe\<close> returns, it returns the reference it was given, and in the heap
  only the table behind that reference has changed. That table keeps its number of rows,
  and every column with a name other than the output column and \<open>failure_type\<close> keeps
  its values. The names of the columns afterwards are the names before in their order,
  followed by the output column when it was no column before, followed by
  \<open>failure_type\<close> when it was no column before and is not the name of the output
  column: two columns are added exactly when neither name was a column and the two
  differ, and a column that has one of the names already is overwritten. The output
  column (when its name is not \<open>failure_type\<close>) holds the \<open>Series\<close> that the row-wise
  \<open>apply\<close> returned, which for a table with rows and columns \<open>pandas\<close> has built from
  the results of the rows, one for each row; \<open>failure_type\<close> holds the \<open>Series\<close> built
  from the labels of its entries. The call returns, for a table with rows and columns,
  when the two texts of every row can be read, the transport raises only exceptions
  derived from \<open>Exception\<close> other than \<open>JSONDecodeError\<close>, and the decoder raises only
  exceptions derived from \<open>Exception\<close>.
\<close>

theorem classify_dataframe_frame:
  assumes "well_formed (h df)"
  shows
   "(classify_dataframe pd loads tr self h df sc dc oc calls = (Inr r, h', calls') \<longrightarrow>
      r = df \<and>
      (\<forall>q. q \<noteq> df \<longrightarrow> h' q = h q) \<and>
      nrows (h' df) = nrows (h df) \<and>
      (\<forall>name. name \<noteq> oc \<and> name \<noteq> ''failure_type'' \<longrightarrow>
         get_column (h' df) name = get_column (h df) name) \<and>
      column_names (h' df) =
        column_names (h df) @
        (if oc \<in> set (column_names (h df)) then [] else [oc]) @
        (if ''failure_type'' \<in> set (column_names (h df)) \<or> ''failure_type'' = oc then []
         else [''failure_type'']) \<and>
      (length (column_names (h' df)) = length (column_names (h df)) + 2 \<longleftrightarrow>
         oc \<notin> set (column_names (h df)) \<and> ''failure_type'' \<notin> set (column_names (h df)) \<and>
         oc \<noteq> ''failure_type'') \<and>
      (\<exists>xs. progress_apply pd loads tr self (h df) sc dc calls = (Inr xs, calls') \<and>
         (oc \<noteq> ''failure_type'' \<longrightarrow> get_column (h' df) oc = Inr xs) \<and>
         get_column (h' df) ''failure_type'' = Inr (map_series pd (map label_of xs)) \<and>
         (0 < nrows (h df) \<and> cols (h df) \<noteq> [] \<longrightarrow>
            (\<exists>results. classify_rows pd loads tr self (h df) sc dc [0 ..< nrows (h df)] calls
                          = (Inr results, calls') \<and>
               xs = rows_series pd results \<and> length results = nrows (h df))))) \<and>
    (0 < nrows (h df) \<and> cols (h df) \<noteq> [] \<and>
     (\<forall>k < nrows (h df). \<exists>s d.
        row_text pd (h df) k sc = Inr s \<and> row_text pd (h df) k dc = Inr d) \<and>
     (\<forall>n req e. tr n req = Raises e \<longrightarrow> is_Exception e \<and> \<not> is_JSONDecodeError e) \<and>
     (\<forall>t e. loads t = Inl e \<longrightarrow> is_Exception e)
     \<longrightarrow> (\<exists>h'' c. classify_dataframe pd loads tr self h df sc dc oc calls = (Inr df, h'', c)))"
proof (intro conjI impI)
  assume run: "classify_dataframe pd loads tr self h df sc dc oc calls = (Inr r, h', calls')"
  from classify_dataframe_Inr [OF run] obtain xs where
    p: "progress_apply pd loads tr self (h df) sc dc calls = (Inr xs, calls')"
    and r: "r = df"
    and h': "h' = h(df := set_column (set_column (h df) oc xs) ''failure_type''
                          (map_series pd (map label_of xs)))"
    by blast
  from r show "r = df" .
  from h' show "\<forall>q. q \<noteq> df \<longrightarrow> h' q = h q" by simp
  from h' show "nrows (h' df) = nrows (h df)" by (simp add: set_column_def)
  from h' show "\<forall>name. name \<noteq> oc \<and> name \<noteq> ''failure_type'' \<longrightarrow>
         get_column (h' df) name = get_column (h df) name"
    by (simp add: get_column_set_column)
  from h' show names: "column_names (h' df) =
        column_names (h df) @
        (if oc \<in> set (column_names (h df)) then [] else [oc]) @
        (if ''failure_type'' \<in> set (column_names (h df)) \<or> ''failure_type'' = oc then []
         else [''failure_type''])"
    by (simp only: fun_upd_same names_two_columns)
  from names show "length (column_names (h' df)) = length (column_names (h df)) + 2 \<longleftrightarrow>
         oc \<notin> set (column_names (h df)) \<and> ''failure_type'' \<notin> set (column_names (h df)) \<and>
         oc \<noteq> ''failure_type''"
    by (auto split: if_splits)
  have raw: "oc \<noteq> ''failure_type'' \<longrightarrow> get_column (h' df) oc = Inr xs"
    using h' by (simp add: get_column_set_column)
  have lab: "get_column (h' df) ''failure_type'' = Inr (map_series pd (map label_of xs))"
    using h' by (simp add: get_column_set_column)
  have rows: "0 < nrows (h df) \<and> cols (h df) \<noteq> [] \<longrightarrow>
            (\<exists>results. classify_rows pd loads tr self (h df) sc dc [0 ..< nrows (h df)] calls
                          = (Inr results, calls') \<and>
               xs = rows_series pd results \<and> length results = nrows (h df))"
  proof (intro impI, elim conjE)
    assume a: "0 < nrows (h df)" "cols (h df) \<noteq> []"
    from progress_apply_rows [OF p a] obtain results where
      c: "classify_rows pd loads tr self (h df) sc dc [0 ..< nrows (h df)] calls
            = (Inr results, calls')" and x: "xs = rows_series pd results" by blast
    from classify_rows_results [OF c] have "length results = nrows (h df)" by simp
    with c x show "\<exists>results. classify_rows pd loads tr self (h df) sc dc [0 ..< nrows (h df)] calls
                          = (Inr results, calls') \<and>
               xs = rows_series pd results \<and> length results = nrows (h df)" by blast
  qed
  from p raw lab rows
  show "\<exists>xs. progress_apply pd loads tr self (h df) sc dc calls = (Inr xs, calls') \<and>
         (oc \<noteq> ''failure_type'' \<longrightarrow> get_column (h' df) oc = Inr xs) \<and>
         get_column (h' df) ''failure_type'' = Inr (map_series pd (map label_of xs)) \<and>
         (0 < nrows (h df) \<and> cols (h df) \<noteq> [] \<longrightarrow>
            (\<exists>results. classify_rows pd loads tr self (h df) sc dc [0 ..< nrows (h df)] calls
                          = (Inr results, calls') \<and>
               xs = rows_series pd results \<and> length results = nrows (h df)))"
    by blast
next
  assume "0 < nrows (h df) \<and> cols (h df) \<noteq> [] \<and>
     (\<forall>k < nrows (h df). \<exists>s d.
        row_text pd (h df) k sc = Inr s \<and> row_text pd (h df) k dc = Inr d) \<and>
     (\<forall>n req e. tr n req = Raises e \<longrightarrow> is_Exception e \<and> \<not> is_JSONDecodeError e) \<and>
     (\<forall>t e. loads t = Inl e \<longrightarrow> is_Exception e)"
  then show "\<exists>h'' c. classify_dataframe pd loads tr self h df sc dc oc calls = (Inr df, h'', c)"
    by (intro classify_dataframe_returns) blast+
qed

lemmas run_defs =
  upt_rec classify_report_def run_attempts_def py_range_3 scripted_def always_def
  try_block_def py_index_def strip_def lstrip_def rstrip_def isspace_def unfence_def fence_def
  fence_json_def sample_decoder_def decoder_table_def scripted_pandas_def cell_texts_def
  series_table_def sample_cells_def single_heap_def progress_apply_def

lemma apply_sample:
  "progress_apply sample_pandas sample_decoder (scripted sample_outcomes) sample_classifier
     (single_heap sample_table 0) ''subject'' ''description'' 0
   = (Inr sample_results, 4)"
  by (simp add: run_defs sample_pandas_def sample_table_def sample_outcomes_def
      sample_results_def)



lemma apply_relabel:
  \<open>progress_apply relabel_pandas sample_decoder
     (always (Responds [Some ''{"failure_type": "Beam Generation"}'']))
     sample_classifier (single_heap classified_table 0) ''subject'' ''description'' 0
   = (Inr relabel_results, 1)\<close>
  by (simp add: run_defs relabel_pandas_def classified_table_def relabel_results_def)

lemma sample_table_ok:
  "well_formed (single_heap sample_table 0)"
  "0 < nrows (single_heap sample_table 0) \<and> cols (single_heap sample_table 0) \<noteq> []"
  by (simp_all add: well_formed_def column_names_def single_heap_def sample_table_def)

lemma sample_cells_ok:
  "\<forall>k < nrows (single_heap sample_table 0). \<exists>s d.
     row_text (scripted_pandas sample_cells rt mt) (single_heap sample_table 0) k ''subject'' = Inr s \<and>
     row_text (scripted_pandas sample_cells rt mt) (single_heap sample_table 0) k ''description'' = Inr d"
  by (simp add: single_heap_def sample_table_def scripted_pandas_def cell_texts_def
      sample_cells_def less_Suc_eq numeral_2_eq_2)

lemma scripted_ok:
  "\<forall>n req e. scripted sample_outcomes n req = Raises e \<longrightarrow> is_Exception e \<and> \<not> is_JSONDecodeError e"
  "\<forall>n req e. scripted numeric_outcomes n req = Raises e \<longrightarrow> is_Exception e \<and> \<not> is_JSONDecodeError e"
  by (auto simp: scripted_def sample_outcomes_def numeric_outcomes_def nth_Cons' split: if_splits)

lemma sample_decoder_ok: "\<forall>t e. sample_decoder t = Inl e \<longrightarrow> is_Exception e"
  by (auto simp: sample_decoder_def decoder_table_def split: option.splits)



text \<open>
  C10 at the table of two rows, which has neither of the two columns: the first row is
  classified at once, the second after three answers that are no JSON.
\<close>

theorem classify_dataframe_frame_witness:
  "well_formed (single_heap sample_table 0) \<and>
   returned (classify_dataframe sample_pandas sample_decoder (scripted sample_outcomes)
      sample_classifier (single_heap sample_table) 0 ''subject'' ''description''
      ''llm_classification'' 0) = Inr 0 \<and>
   (\<exists>h'' c. classify_dataframe sample_pandas sample_decoder (scripted sample_outcomes)
      sample_classifier (single_heap sample_table) 0 ''subject'' ''description''
      ''llm_classification'' 0 = (Inr 0, h'', c)) \<and>
   nrows (frame_after (classify_dataframe sample_pandas sample_decoder (scripted sample_outcomes)
      sample_classifier (single_heap sample_table) 0 ''subject'' ''description''
      ''llm_classification'' 0) 0) = 2 \<and>
   get_column (frame_after (classify_dataframe sample_pandas sample_decoder
      (scripted sample_outcomes) sample_classifier (single_heap sample_table) 0 ''subject''
      ''description'' ''llm_classification'' 0) 0) ''subject''
     = Inr [PStr ''GFIL, down'', PStr ''Couch will not move''] \<and>
   column_names (frame_after (classify_dataframe sample_pandas sample_decoder
      (scripted sample_outcomes) sample_classifier (single_heap sample_table) 0 ''subject''
      ''description'' ''llm_classification'' 0) 0)
     = [''subject'', ''description'', ''llm_classification'', ''failure_type''] \<and>
   get_column (frame_after (classify_dataframe sample_pandas sample_decoder
      (scripted sample_outcomes) sample_classifier (single_heap sample_table) 0 ''subject''
      ''description'' ''llm_classification'' 0) 0) ''llm_classification''
     = Inr sample_results \<and>
   get_column (frame_after (classify_dataframe sample_pandas sample_decoder
      (scripted sample_outcomes) sample_classifier (single_heap sample_table) 0 ''subject''
      ''description'' ''llm_classification'' 0) 0) ''failure_type''
     = Inr [PStr ''Beam Generation'', PStr ''ParseError'']"
proof -
  let ?h = "single_heap sample_table"
  let ?H = "?h(0 := set_column (set_column (?h 0) ''llm_classification'' sample_results)
                ''failure_type'' (map_series sample_pandas (map label_of sample_results)))"
  let ?run = "classify_dataframe sample_pandas sample_decoder (scripted sample_outcomes)
      sample_classifier ?h 0 ''subject'' ''description'' ''llm_classification'' 0"
  have run: "?run = (Inr 0, ?H, 4)"
    using classify_dataframe_eq [where h = ?h and df = 0 and oc = "''llm_classification''",
        OF apply_sample] .
  note T = classify_dataframe_frame [where h = ?h and df = 0 and pd = sample_pandas
      and loads = sample_decoder and tr = "scripted sample_outcomes" and self = sample_classifier
      and sc = "''subject''" and dc = "''description''" and oc = "''llm_classification''"
      and calls = 0 and r = 0 and h' = ?H and calls' = 4, OF sample_table_ok(1)]
  note T1 = T [THEN conjunct1, rule_format, OF run]
  have fa: "frame_after ?run 0 = ?H 0" using run by (simp add: frame_after_def)
  from T1 have n: "nrows (?H 0) = nrows (?h 0)" by blast
  from T1 have "\<forall>name. name \<noteq> ''llm_classification'' \<and> name \<noteq> ''failure_type'' \<longrightarrow>
      get_column (?H 0) name = get_column (?h 0) name" by blast
  then have "get_column (?H 0) ''subject'' = get_column (?h 0) ''subject''" by simp
  then have s: "get_column (?H 0) ''subject'' = Inr [PStr ''GFIL, down'', PStr ''Couch will not move'']"
    by (simp add: get_column_def single_heap_def sample_table_def)
  from T1 have "column_names (?H 0) =
        column_names (?h 0) @
        (if ''llm_classification'' \<in> set (column_names (?h 0)) then [] else [''llm_classification'']) @
        (if ''failure_type'' \<in> set (column_names (?h 0)) \<or> ''failure_type'' = ''llm_classification''
         then [] else [''failure_type''])" by blast
  then have names: "column_names (?H 0)
      = [''subject'', ''description'', ''llm_classification'', ''failure_type'']"
    by (simp add: column_names_def single_heap_def sample_table_def)
  from T1 obtain xs where
    xs: "progress_apply sample_pandas sample_decoder (scripted sample_outcomes) sample_classifier
           (?h 0) ''subject'' ''description'' 0 = (Inr xs, 4)"
    and raw: "''llm_classification'' \<noteq> ''failure_type'' \<longrightarrow> get_column (?H 0) ''llm_classification'' = Inr xs"
    and lab: "get_column (?H 0) ''failure_type'' = Inr (map_series sample_pandas (map label_of xs))"
    by blast
  from xs apply_sample have x: "xs = sample_results" by simp
  from raw x have raw': "get_column (?H 0) ''llm_classification'' = Inr sample_results" by simp
  have "map_series sample_pandas (map label_of sample_results)
          = [PStr ''Beam Generation'', PStr ''ParseError'']"
    by (simp add: sample_pandas_def scripted_pandas_def series_table_def sample_results_def
        dict_get_def parse_error_def)
  with lab x have lab': "get_column (?H 0) ''failure_type'' = Inr [PStr ''Beam Generation'', PStr ''ParseError'']"
    by simp
  have cells: "\<forall>k < nrows (?h 0). \<exists>s d.
     row_text sample_pandas (?h 0) k ''subject'' = Inr s \<and>
     row_text sample_pandas (?h 0) k ''description'' = Inr d"
    unfolding sample_pandas_def by (rule sample_cells_ok)
  from T [THEN conjunct2, rule_format,
      OF conjI [OF sample_table_ok(2) [THEN conjunct1] conjI [OF sample_table_ok(2) [THEN conjunct2]
           conjI [OF cells conjI [OF scripted_ok(1) sample_decoder_ok]]]]]
  have e: "\<exists>h'' c. ?run = (Inr 0, h'', c)" .
  have ret: "returned ?run = Inr 0" using run by (simp add: returned_def)
  have n2: "nrows (frame_after ?run 0) = 2"
    using n fa by (simp add: single_heap_def sample_table_def)
  from sample_table_ok(1) ret e n2 s names raw' lab' fa show ?thesis
    by (simp only: simp_thms)
qed

text \<open>
  C10 as stated fails for a table that has a column \<open>failure_type\<close> already (a table
  classified before): only one column is added, and the values of the column
  \<open>failure_type\<close> are replaced.
\<close>

theorem classify_dataframe_overwrites_failure_type:
  \<open>column_names (single_heap classified_table 0) = [''subject'', ''description'', ''failure_type''] \<and>
   get_column (single_heap classified_table 0) ''failure_type'' = Inr [PStr ''Cooling System''] \<and>
   returned (classify_dataframe relabel_pandas sample_decoder
      (always (Responds [Some ''{"failure_type": "Beam Generation"}'']))
      sample_classifier (single_heap classified_table) 0
      ''subject'' ''description'' ''llm_classification'' 0) = Inr 0 \<and>
   column_names (frame_after (classify_dataframe relabel_pandas sample_decoder
      (always (Responds [Some ''{"failure_type": "Beam Generation"}'']))
      sample_classifier (single_heap classified_table) 0
      ''subject'' ''description'' ''llm_classification'' 0) 0)
     = [''subject'', ''description'', ''failure_type'', ''llm_classification''] \<and>
   get_column (frame_after (classify_dataframe relabel_pandas sample_decoder
      (always (Responds [Some ''{"failure_type": "Beam Generation"}'']))
      sample_classifier (single_heap classified_table) 0
      ''subject'' ''description'' ''llm_classification'' 0) 0) ''failure_type''
     = Inr [PStr ''Beam Generation'']\<close>
  using classify_dataframe_eq [where h = "single_heap classified_table" and df = 0
        and oc = "''llm_classification''", OF apply_relabel]
  by (simp add: returned_def frame_after_def get_column_set_column dict_get_def
      column_names_def set_column_def single_heap_def classified_table_def get_column_def
      relabel_results_def relabel_pandas_def scripted_pandas_def series_table_def)

section \<open>Properties of the regular expressions and the extractors\<close>


lemma closes_append: "closes n (a @ b) = (closes n a \<or> closes n b)"
  by (induction n a rule: closes.induct) auto

lemma rmatch_keeps:
  "rmatch d p s caps = Some (caps', rest) \<Longrightarrow> caps n \<noteq> None \<Longrightarrow> caps' n \<noteq> None"
proof (induction d p s caps arbitrary: caps' rest rule: rmatch.induct)
  case (1 d s caps)
  then show ?case by simp
next
  case (2 d l r s caps)
  then show ?case by (simp split: if_splits)
next
  case (3 d c lo hi greedy r s caps)
  from "3.prems"(1) obtain k where k: "k \<in> set (counts d c lo hi greedy s)"
    "rmatch d r (drop k s) caps = Some (caps', rest)"
    by (auto dest: first_some_map)
  from "3.IH" [OF k "3.prems"(2)] show ?case .
next
  case (4 d n' b r s caps)
  then show ?case by simp
next
  case (5 d n' start r s caps)
  from "5.prems" have "rmatch d r s (caps(n' \<mapsto> take (length start - length s) start)) = Some (caps', rest)"
    by simp
  moreover from "5.prems"(2) have "(caps(n' \<mapsto> take (length start - length s) start)) n \<noteq> None"
    by simp
  ultimately show ?case by (rule "5.IH")
next
  case (6 d a b r s caps)
  show ?case
  proof (cases "rmatch d (a @ r) s caps")
    case None
    with "6.prems" "6.IH"(2) show ?thesis by simp
  next
    case (Some x)
    with "6.prems" "6.IH"(1) show ?thesis by simp
  qed
next
  case (7 d start r s caps)
  then show ?case by (simp split: if_splits)
qed

lemma rmatch_closes:
  "rmatch d p s caps = Some (caps', rest) \<Longrightarrow> closes n p \<Longrightarrow> caps' n \<noteq> None"
proof (induction d p s caps arbitrary: caps' rest rule: rmatch.induct)
  case (1 d s caps)
  then show ?case by simp
next
  case (2 d l r s caps)
  then show ?case by (simp split: if_splits)
next
  case (3 d c lo hi greedy r s caps)
  from "3.prems"(1) obtain k where k: "k \<in> set (counts d c lo hi greedy s)"
    "rmatch d r (drop k s) caps = Some (caps', rest)"
    by (auto dest: first_some_map)
  from "3.prems"(2) have "closes n r" by simp
  from "3.IH" [OF k this] show ?case .
next
  case (4 d n' b r s caps)
  from "4.prems"(2) have "closes n (b @ Mark n' s # r)" by (auto simp: closes_append)
  with "4.prems"(1) "4.IH" show ?case by simp
next
  case (5 d n' start r s caps)
  let ?caps = "caps(n' \<mapsto> take (length start - length s) start)"
  from "5.prems"(1) have m: "rmatch d r s ?caps = Some (caps', rest)" by simp
  show ?case
  proof (cases "n' = n")
    case True
    then have "?caps n \<noteq> None" by simp
    with m show ?thesis by (rule rmatch_keeps)
  next
    case False
    with "5.prems"(2) have "closes n r" by simp
    with m show ?thesis by (rule "5.IH")
  qed
next
  case (6 d a b r s caps)
  from "6.prems"(2) have c: "closes n (a @ r)" "closes n (b @ r)" by (simp_all add: closes_append)
  show ?case
  proof (cases "rmatch d (a @ r) s caps")
    case None
    with "6.prems"(1) "6.IH"(2) c(2) show ?thesis by simp
  next
    case (Some x)
    with "6.prems"(1) "6.IH"(1) c(1) show ?thesis by simp
  qed
next
  case (7 d start r s caps)
  then show ?case by (simp split: if_splits)
qed

lemma re_search_rmatch:
  "re_search d p s = Some m \<Longrightarrow> \<exists>s' rest. rmatch d p s' Map.empty = Some (groups m, rest)"
proof (induction s)
  case Nil
  then obtain rest where "rmatch d p [] Map.empty = Some (groups m, rest)"
    by (auto split: option.splits)
  then show ?case by blast
next
  case (Cons c cs)
  show ?case
  proof (cases "rmatch d p (c # cs) Map.empty")
    case None
    with Cons show ?thesis by simp
  next
    case (Some x)
    obtain caps rest where "x = (caps, rest)" by (cases x)
    with Some Cons.prems have "rmatch d p (c # cs) Map.empty = Some (groups m, rest)" by auto
    then show ?thesis by blast
  qed
qed

lemma re_search_closes:
  assumes "re_search d p s = Some m" and "closes n p"
  shows "groups m n \<noteq> None"
proof -
  from re_search_rmatch [OF assms(1)] obtain s' rest
    where "rmatch d p s' Map.empty = Some (groups m, rest)" by blast
  from rmatch_closes [OF this assms(2)] show ?thesis .
qed

lemma stripped_group_eq:
  "re_search d p s = Some m \<Longrightarrow> closes n p \<Longrightarrow> stripped_group m n = Inr (strip (group_text m n))"
  using re_search_closes [of d p s m n]
  by (auto simp: stripped_group_def group_text_def)

lemma group_value_eq:
  "re_search d p s = Some m \<Longrightarrow> closes n p \<Longrightarrow> group_value m n = PStr (group_text m n)"
  using re_search_closes [of d p s m n]
  by (auto simp: group_value_def group_text_def)

lemma find_eq: "closes 1 p \<Longrightarrow> find text d p = Inr (find_value text d p)"
  by (auto simp: find_def find_value_def stripped_group_eq split: option.splits)

lemmas pattern_defs =
  p1_work_order_id_def p1_machine_id_def p1_subject_def p1_description_def p1_stamp_def
  p1_malfunction_start_def p1_machine_release_def p1_time_in_def p1_time_out_def p1_number_def
  p1_down_time_hours_def p1_site_hours_def p1_travel_hours_def p1_total_work_hours_def
  p2_date_def p2_clock_def p2_time_entries_def p2_work_order_id_def p2_machine_id_def
  p2_subject_def p2_description_def p2_malfunction_start_def p2_machine_release_def
  p2_hours_block_def p3_stamp_def p3_times_def p3_work_order_id_def p3_machine_id_def
  p3_subject_def p3_description_def p3_hours_def

lemma closes_fields1: "\<forall>(k, p) \<in> set fields1. closes 1 p"
  by (simp add: fields1_def pattern_defs plus_def star_def)

lemma closes_p2:
  "closes 1 p2_work_order_id" "closes 1 p2_machine_id" "closes 1 p2_subject"
  "closes 1 p2_description" "closes 1 p2_malfunction_start" "closes 1 p2_machine_release"
  "closes 1 p2_hours_block" "closes 2 p2_hours_block" "closes 3 p2_hours_block"
  "closes 1 p2_time_entries" "closes 2 p2_time_entries" "closes 3 p2_time_entries"
  by (simp_all add: pattern_defs plus_def star_def lazy_star_def)

lemma closes_p3:
  "closes 1 p3_work_order_id" "closes 1 p3_machine_id" "closes 1 p3_subject"
  "closes 1 p3_description" "closes 1 p3_hours" "closes 2 p3_hours" "closes 3 p3_hours"
  "closes 1 p3_times" "closes 2 p3_times" "closes 3 p3_times" "closes 4 p3_times"
  by (simp_all add: pattern_defs plus_def star_def)


lemma find_value_captured: "find_value text d p = strip (captured d p text 1)"
  by (simp add: find_value_def captured_def strip_def lstrip_def rstrip_def split: option.splits)

lemma sequence_Inr:
  "(\<And>x. x \<in> set xs \<Longrightarrow> f x = Inr (g x)) \<Longrightarrow> sequence (map f xs) = Inr (map g xs)"
  by (induction xs) auto

lemma dict_set_fresh: "k \<notin> fst ` set kvs \<Longrightarrow> dict_set kvs k v = kvs @ [(k, v)]"
  by (induction kvs k v rule: dict_set.induct) auto

lemma matched_value_eq:
  assumes "closes 1 p"
  shows "matched_value (k, re_search False p text) = Inr (k, field_value1 k (re_search False p text))"
proof (cases "re_search False p text")
  case None
  then show ?thesis by (simp add: matched_value_def field_value1_def)
next
  case (Some m)
  from stripped_group_eq [OF Some assms] Some show ?thesis
    by (simp add: matched_value_def field_value1_def bind_exn_def)
qed

lemma extract_text1_eq: "extract_text1 text = Inr (record1 text)"
proof -
  have "sequence (map matched_value (searches1 text))
      = Inr (map (\<lambda>(key, pattern). (key, field_value1 key (re_search False pattern text))) fields1)"
  proof -
    have "matched_value ((\<lambda>(key, pattern). (key, re_search False pattern text)) x)
        = Inr ((\<lambda>(key, pattern). (key, field_value1 key (re_search False pattern text))) x)"
      if "x \<in> set fields1" for x
    proof -
      obtain k p where x: "x = (k, p)" by (cases x)
      with that closes_fields1 have "closes 1 p" by auto
      from matched_value_eq [OF this] x show ?thesis by simp
    qed
    from sequence_Inr [of fields1 "\<lambda>x. matched_value ((\<lambda>(key, pattern). (key, re_search False pattern text)) x)"
        "\<lambda>(key, pattern). (key, field_value1 key (re_search False pattern text))", OF this]
    show ?thesis by (simp add: searches1_def comp_def)
  qed
  moreover have "''report_source'' \<notin> fst ` set (map (\<lambda>(key, pattern). (key, field_value1 key (re_search False pattern text))) fields1)"
    by (simp add: fields1_def)
  ultimately show ?thesis
    by (simp add: extract_text1_def bind_exn_def record1_def dict_set_fresh)
qed

lemma group_value_case:
  "closes n p \<Longrightarrow>
   (case re_search d p text of Some m \<Rightarrow> group_value m n | None \<Rightarrow> PStr []) = PStr (captured d p text n)"
  by (auto simp: captured_def group_value_eq split: option.splits)

lemma extract_text2_eq: "extract_text2 text filename = Inr (record2 text filename)"
proof -
  note h = group_value_case [OF closes_p2(7)]
    group_value_case [OF closes_p2(8)]
    group_value_case [OF closes_p2(9)]
  note f = find_eq [OF closes_p2(1)] find_eq [OF closes_p2(2)] find_eq [OF closes_p2(3)]
    find_eq [OF closes_p2(4)] find_eq [OF closes_p2(5)] find_eq [OF closes_p2(6)]
  show ?thesis
    unfolding extract_text2_def record2_def Let_def f h bind_exn_def by simp
qed

lemma extract_text3_eq: "extract_text3 text filename = Inr (record3 text filename)"
proof -
  note h = group_value_case [OF closes_p3(5)]
    group_value_case [OF closes_p3(6)]
    group_value_case [OF closes_p3(7)]
    group_value_case [OF closes_p3(8)]
    group_value_case [OF closes_p3(9)]
    group_value_case [OF closes_p3(10)]
    group_value_case [OF closes_p3(11)]
  note f = find_eq [OF closes_p3(1)] find_eq [OF closes_p3(2)] find_eq [OF closes_p3(3)]
    find_eq [OF closes_p3(4)]
  show ?thesis
    unfolding extract_text3_def record3_def Let_def f h bind_exn_def by simp
qed


lemma re_findall_Nil: "re_search d p s = None \<Longrightarrow> re_findall d p s = []"
  unfolding re_findall_def by (subst re_findall_from.simps) simp

lemma find_value_None: "re_search d p text = None \<Longrightarrow> find_value text d p = []"
  by (simp add: find_value_def)

lemma captured_None: "re_search d p text = None \<Longrightarrow> captured d p text n = []"
  by (simp add: captured_def)

lemma strip_Nil: "strip [] = []"
  by (simp add: strip_def lstrip_def rstrip_def)


lemmas rx_defs = plus_def star_def opt_def one_def lazy_plus_def lazy_star_def times_def ws_def dg_def
  counts_def isspace_def

lemmas eval_defs = rx_defs pattern_defs strip_def lstrip_def rstrip_def group_text_def
  find_value_def captured_def field_value1_def

lemma record1_fields:
  "\<forall>(key, pattern) \<in> set fields1.
     (re_search False pattern text = None \<longrightarrow> map_of (record1 text) key = Some PNone) \<and>
     (re_search False pattern text \<noteq> None \<longrightarrow> (\<exists>s. map_of (record1 text) key = Some (PStr s)))"
  by (auto simp: fields1_def record1_def field_value1_def)

lemma record2_strings: "map_of (record2 text filename) key = Some v \<Longrightarrow> \<exists>s. v = PStr s"
  by (auto simp: record2_def Let_def split: if_splits)

lemma record3_strings: "map_of (record3 text filename) key = Some v \<Longrightarrow> \<exists>s. v = PStr s"
  by (auto simp: record3_def split: if_splits)

text \<open>
  C5 (as amended). In the first layout each of the twelve fields that are read from the
  text is \<open>None\<close> when its pattern has no match in the text, and a string when it has:
  this holds for the times and the hours as for the other fields. In the second and the
  third layout each field that is read from the text is the empty string when its
  pattern has no match, \<open>down_time_hours\<close> is the empty string in any case, and every
  value of the record is a string, never \<open>None\<close>. No extractor raises on any text.
\<close>

theorem absent_fields_default:
  "(\<exists>rec. extract_text1 text = Inr rec \<and>
      (\<forall>(key, pattern) \<in> set fields1.
         (re_search False pattern text = None \<longrightarrow> map_of rec key = Some PNone) \<and>
         (re_search False pattern text \<noteq> None \<longrightarrow> (\<exists>s. map_of rec key = Some (PStr s))))) \<and>
   (\<exists>rec. extract_text2 text filename = Inr rec \<and>
      map_of rec ''down_time_hours'' = Some (PStr []) \<and>
      (\<forall>(key, dotall, pattern) \<in> set fields2.
         re_search dotall pattern text = None \<longrightarrow> map_of rec key = Some (PStr [])) \<and>
      (\<forall>key v. map_of rec key = Some v \<longrightarrow> (\<exists>s. v = PStr s))) \<and>
   (\<exists>rec. extract_text3 text filename = Inr rec \<and>
      map_of rec ''down_time_hours'' = Some (PStr []) \<and>
      (\<forall>(key, dotall, pattern) \<in> set fields3.
         re_search dotall pattern text = None \<longrightarrow> map_of rec key = Some (PStr [])) \<and>
      (\<forall>key v. map_of rec key = Some v \<longrightarrow> (\<exists>s. v = PStr s)))"
proof -
  have 2: "map_of (record2 text filename) ''down_time_hours'' = Some (PStr []) \<and>
      (\<forall>(key, dotall, pattern) \<in> set fields2.
         re_search dotall pattern text = None \<longrightarrow> map_of (record2 text filename) key = Some (PStr []))"
    by (simp add: fields2_def record2_def Let_def find_value_None captured_None re_findall_Nil strip_Nil)
  have 3: "map_of (record3 text filename) ''down_time_hours'' = Some (PStr []) \<and>
      (\<forall>(key, dotall, pattern) \<in> set fields3.
         re_search dotall pattern text = None \<longrightarrow> map_of (record3 text filename) key = Some (PStr []))"
    by (simp add: fields3_def record3_def find_value_None captured_None)
  have s2: "\<forall>key v. map_of (record2 text filename) key = Some v \<longrightarrow> (\<exists>s. v = PStr s)"
    using record2_strings by blast
  have s3: "\<forall>key v. map_of (record3 text filename) key = Some v \<longrightarrow> (\<exists>s. v = PStr s)"
    using record3_strings by blast
  from record1_fields [of "text"] 2 3 s2 s3 show ?thesis
    using extract_text1_eq [of "text"] extract_text2_eq [of "text" filename]
      extract_text3_eq [of "text" filename]
    by blast
qed

text \<open>
  C5 as stated fails: on a text without any of the fields the first layout gives
  \<open>None\<close> for every field, also for \<open>site_hours\<close> and \<open>time_in\<close>, which are no
  identifier and no metadata.
\<close>

theorem absent_hours_are_null:
  "extract_text1 [] =
     Inr [(''work_order_id'', PNone), (''machine_id'', PNone), (''subject'', PNone),
          (''description'', PNone), (''malfunction_start'', PNone), (''machine_release'', PNone),
          (''time_in'', PNone), (''time_out'', PNone), (''down_time_hours'', PNone),
          (''site_hours'', PNone), (''travel_hours'', PNone), (''total_work_hours'', PNone),
          (''report_source'', PStr ''varian'')] \<and>
   ''site_hours'' \<notin> set [''work_order_id'', ''machine_id'', ''subject'', ''description''] \<and>
   ''time_in'' \<notin> set [''work_order_id'', ''machine_id'', ''subject'', ''description'']"
  by (simp add: extract_text1_eq record1_def fields1_def field_value1_def pattern_defs)

text \<open>
  C5 at a text that has a machine but no times: the three layouts at the field
  \<open>time_in\<close>, and the first layout at the field \<open>machine_id\<close>, which is found.
\<close>

theorem absent_fields_default_witness:
  "re_search False p1_time_in ''Asset H19'' = None \<and>
   (\<exists>rec. extract_text1 ''Asset H19'' = Inr rec \<and> map_of rec ''time_in'' = Some PNone \<and>
      (\<exists>s. map_of rec ''machine_id'' = Some (PStr s))) \<and>
   re_search False p2_time_entries ''Asset H19'' = None \<and>
   (\<exists>rec. extract_text2 ''Asset H19'' ''report'' = Inr rec \<and> map_of rec ''time_in'' = Some (PStr [])) \<and>
   re_search False p3_times ''Asset H19'' = None \<and>
   (\<exists>rec. extract_text3 ''Asset H19'' ''report'' = Inr rec \<and> map_of rec ''time_in'' = Some (PStr []))"
proof -
  note P = absent_fields_default [of "''Asset H19''" "''report''"]
  have n1: "re_search False p1_time_in ''Asset H19'' = None" by (simp add: pattern_defs)
  have y1: "re_search False p1_machine_id ''Asset H19'' \<noteq> None" by (simp add: eval_defs)
  have n2: "re_search False p2_time_entries ''Asset H19'' = None" by (simp add: rx_defs pattern_defs)
  have n3: "re_search False p3_times ''Asset H19'' = None" by (simp add: pattern_defs)
  have m1: "(''time_in'', p1_time_in) \<in> set fields1" "(''machine_id'', p1_machine_id) \<in> set fields1"
    by (simp_all add: fields1_def)
  have m2: "(''time_in'', False, p2_time_entries) \<in> set fields2" by (simp add: fields2_def)
  have m3: "(''time_in'', False, p3_times) \<in> set fields3" by (simp add: fields3_def)
  from P [THEN conjunct1] m1 n1 y1
  have 1: "\<exists>rec. extract_text1 ''Asset H19'' = Inr rec \<and> map_of rec ''time_in'' = Some PNone \<and>
      (\<exists>s. map_of rec ''machine_id'' = Some (PStr s))"
    by fastforce
  from P [THEN conjunct2, THEN conjunct1] m2 n2
  have 2: "\<exists>rec. extract_text2 ''Asset H19'' ''report'' = Inr rec \<and> map_of rec ''time_in'' = Some (PStr [])"
    by fastforce
  from P [THEN conjunct2, THEN conjunct2] m3 n3
  have 3: "\<exists>rec. extract_text3 ''Asset H19'' ''report'' = Inr rec \<and> map_of rec ''time_in'' = Some (PStr [])"
    by fastforce
  from n1 1 n2 2 n3 3 show ?thesis by (intro conjI)
qed



lemma search_literal_first:
  assumes "l \<noteq> []" and "cut l s = Some (pre, rest)"
    and "rmatch d r rest Map.empty = Some (caps, rest')"
  shows "\<exists>m. re_search d (Lit l # r) s = Some m \<and> groups m = caps"
  using assms(2)
proof (induction s arbitrary: pre)
  case Nil
  with assms(1) show ?case by simp
next
  case (Cons c cs)
  show ?case
  proof (cases "prefix l (c # cs)")
    case True
    with Cons.prems have "rest = drop (length l) (c # cs)" by simp
    with True assms(3) show ?thesis by simp
  next
    case False
    with Cons.prems obtain pre' where "cut l cs = Some (pre', rest)"
      by (auto split: prod.splits)
    from Cons.IH [OF this] False show ?thesis by simp
  qed
qed

lemma captured_literal_first:
  assumes "l \<noteq> []" and "cut l s = Some (pre, rest)"
    and "rmatch d r rest Map.empty = Some (caps, rest')"
  shows "captured d (Lit l # r) s n = (case caps n of None \<Rightarrow> [] | Some g \<Rightarrow> g)"
  using search_literal_first [OF assms]
  by (auto simp: captured_def group_text_def)

lemma takeWhile_digit_stop:
  "post = [] \<or> \<not> digit (hd post) \<Longrightarrow> takeWhile (cset_match d dg) post = []"
  by (cases post) (auto simp: digit_def dg_def)

lemma work_order_tail:
  assumes "post = [] \<or> \<not> digit (hd post)"
  shows "rmatch False [plus ws, Lit ''WO-'', Grp 1 [plus dg]] ('' WO-12345'' @ post) Map.empty
           = Some ([1 \<mapsto> ''12345''], post)"
proof -
  note stop = takeWhile_digit_stop [OF assms, of False]
  have inner: "rmatch False [Grp 1 [plus dg]] (''12345'' @ post) Map.empty
      = Some ([1 \<mapsto> ''12345''], post)"
    unfolding plus_def
    by (simp add: counts_def stop) (simp add: dg_def)
  show ?thesis
    unfolding plus_def [of ws]
    using inner by (simp add: counts_def ws_def isspace_def)
qed


lemma work_order_number_tail:
  assumes "post = [] \<or> \<not> digit (hd post)"
  shows "rmatch False [plus ws, Grp 1 [Lit ''WO-'', plus dg]] ('' WO-12345'' @ post) Map.empty
           = Some ([1 \<mapsto> ''WO-12345''], post)"
proof -
  note stop = takeWhile_digit_stop [OF assms, of False]
  have inner: "rmatch False [Grp 1 [Lit ''WO-'', plus dg]] (''WO-12345'' @ post) Map.empty
      = Some ([1 \<mapsto> ''WO-12345''], post)"
    unfolding plus_def
    by (simp add: counts_def stop) (simp add: dg_def)
  show ?thesis
    unfolding plus_def [of ws]
    using inner by (simp add: counts_def ws_def isspace_def)
qed

lemma notification_tail:
  assumes "post = [] \<or> \<not> digit (hd post)"
  shows "rmatch False [plus ws, Grp 1 [plus dg]] ('' 12345'' @ post) Map.empty
           = Some ([1 \<mapsto> ''12345''], post)"
proof -
  note stop = takeWhile_digit_stop [OF assms, of False]
  have inner: "rmatch False [Grp 1 [plus dg]] (''12345'' @ post) Map.empty
      = Some ([1 \<mapsto> ''12345''], post)"
    unfolding plus_def
    by (simp add: counts_def stop) (simp add: dg_def)
  show ?thesis
    unfolding plus_def [of ws]
    using inner by (simp add: counts_def ws_def isspace_def)
qed

lemma counts_le:
  "k \<in> set (counts d c lo hi greedy s) \<Longrightarrow> k \<le> length (takeWhile (cset_match d c) s)"
  by (auto simp: counts_def Let_def split: if_splits option.splits)

lemma take_takeWhile:
  "k \<le> length (takeWhile P xs) \<Longrightarrow> \<forall>c \<in> set (take k xs). P c"
proof (induction xs arbitrary: k)
  case Nil
  then show ?case by simp
next
  case (Cons x xs)
  then show ?case by (cases k) (auto split: if_splits)
qed

lemma digits_group:
  assumes "rmatch d [Grp 1 [plus dg]] t caps = Some (caps', rest)"
  shows "\<exists>g. caps' 1 = Some g \<and> (\<forall>c \<in> set g. digit c)"
proof -
  from assms have "first_some (map (\<lambda>k. rmatch d [Mark 1 t] (drop k t) caps)
      (counts d dg 1 None True t)) = Some (caps', rest)"
    by (simp add: plus_def)
  then obtain k where k: "k \<in> set (counts d dg 1 None True t)"
    and m: "rmatch d [Mark 1 t] (drop k t) caps = Some (caps', rest)"
    by (auto dest: first_some_map)
  from counts_le [OF k] have le: "k \<le> length (takeWhile (cset_match d dg) t)" .
  also have "\<dots> \<le> length t" by (rule length_takeWhile_le)
  finally have "length t - length (drop k t) = k" by simp
  with m have "caps' 1 = Some (take k t)" by auto
  moreover from take_takeWhile [OF le] have "\<forall>c \<in> set (take k t). digit c"
    by (simp add: digit_def dg_def)
  ultimately show ?thesis by blast
qed

lemma rmatch_Lit_Rep_tail:
  assumes "rmatch d (Lit l # Rep c lo hi g # r) s caps = Some (caps', rest)"
  shows "\<exists>t. rmatch d r t caps = Some (caps', rest)"
proof -
  from assms have "rmatch d (Rep c lo hi g # r) (drop (length l) s) caps = Some (caps', rest)"
    by (auto split: if_splits)
  then have "first_some (map (\<lambda>k. rmatch d r (drop k (drop (length l) s)) caps)
      (counts d c lo hi g (drop (length l) s))) = Some (caps', rest)"
    by simp
  then obtain k where "rmatch d r (drop k (drop (length l) s)) caps = Some (caps', rest)"
    by (auto dest: first_some_map)
  then show ?thesis by blast
qed

lemma notification_digits:
  assumes "re_search d p2_work_order_id s = Some m"
  shows "\<exists>g. groups m 1 = Some g \<and> (\<forall>c \<in> set g. digit c)"
proof -
  from re_search_rmatch [OF assms] obtain s' rest
    where "rmatch d p2_work_order_id s' Map.empty = Some (groups m, rest)" by blast
  then have "rmatch d (Lit ''Notification No.'' # Rep ws 1 None True # [Grp 1 [plus dg]]) s' Map.empty
      = Some (groups m, rest)"
    by (simp only: p2_work_order_id_def plus_def [of ws])
  from rmatch_Lit_Rep_tail [OF this] obtain t
    where "rmatch d [Grp 1 [plus dg]] t Map.empty = Some (groups m, rest)" by blast
  then show ?thesis by (rule digits_group)
qed

lemma set_strip: "set (strip s) \<subseteq> set s"
proof -
  have "set (rstrip t) \<subseteq> set t" for t
    unfolding rstrip_def using set_dropWhileD [of _ isspace "rev t"] by auto
  moreover have "set (lstrip s) \<subseteq> set s"
    unfolding lstrip_def using set_dropWhileD [of _ isspace s] by auto
  ultimately show ?thesis unfolding strip_def by blast
qed

lemma notification_never_WO: "find_value s d p2_work_order_id \<noteq> ''WO-12345''"
proof (cases "re_search d p2_work_order_id s")
  case None
  then show ?thesis by (simp add: find_value_def)
next
  case (Some m)
  from notification_digits [OF Some] obtain g where g: "groups m 1 = Some g" "\<forall>c \<in> set g. digit c"
    by blast
  show ?thesis
  proof
    assume "find_value s d p2_work_order_id = ''WO-12345''"
    with Some g(1) have "strip g = ''WO-12345''" by (simp add: find_value_def group_text_def)
    then have "CHR ''W'' \<in> set (strip g)" by simp
    with set_strip have "CHR ''W'' \<in> set g" by blast
    with g(2) have "digit CHR ''W''" by blast
    then show False by (simp add: digit_def)
  qed
qed


lemma map_of_record1_work_order:
  "map_of (record1 s) ''work_order_id'' = Some (field_value1 ''work_order_id'' (re_search False p1_work_order_id s))"
  by (simp add: record1_def fields1_def)

lemma map_of_record2_work_order:
  "map_of (record2 s f) ''work_order_id'' = Some (PStr (find_value s False p2_work_order_id))"
  by (simp add: record2_def Let_def)

lemma map_of_record3_work_order:
  "map_of (record3 s f) ''work_order_id'' = Some (PStr (find_value s False p3_work_order_id))"
  by (simp add: record3_def)

lemma strip_no_space: "\<forall>c \<in> set s. \<not> isspace c \<Longrightarrow> strip s = s"
proof -
  assume a: "\<forall>c \<in> set s. \<not> isspace c"
  then have "dropWhile isspace s = s" by (cases s) auto
  moreover from a have "dropWhile isspace (rev s) = rev s" by (cases "rev s") auto
  ultimately show ?thesis by (simp add: strip_def lstrip_def rstrip_def)
qed

text \<open>
  C6 (as amended). \<open>cut w text = Some (pre, rest)\<close> says that the first occurrence of
  the words \<open>w\<close> in the text is followed by \<open>rest\<close>. In the first layout, when the
  first occurrence of \<open>Work Order\<close> is followed by a space and \<open>WO-12345\<close> and then by no
  further digit, \<open>work_order_id\<close> is \<open>WO-12345\<close>; when the pattern of the field has
  no match, it is \<open>None\<close>. In the third layout the same holds for the words
  \<open>Work Order Number\<close>, with the empty string when the pattern has no match. The
  second layout reads the digits after \<open>Notification No.\<close>: its \<open>work_order_id\<close> is
  never \<open>WO-12345\<close>, it is \<open>12345\<close> when the first occurrence of
  \<open>Notification No.\<close> is followed by a space and \<open>12345\<close> and then by no further
  digit, and the empty string when the pattern has no match.
\<close>

theorem work_order_id_extraction:
  "(cut ''Work Order'' text = Some (pre, '' WO-12345'' @ post) \<and> (post = [] \<or> \<not> digit (hd post))
      \<longrightarrow> (\<exists>rec. extract_text1 text = Inr rec \<and>
                 map_of rec ''work_order_id'' = Some (PStr ''WO-12345''))) \<and>
   (re_search False p1_work_order_id text = None
      \<longrightarrow> (\<exists>rec. extract_text1 text = Inr rec \<and> map_of rec ''work_order_id'' = Some PNone)) \<and>
   (cut ''Work Order Number'' text = Some (pre, '' WO-12345'' @ post) \<and> (post = [] \<or> \<not> digit (hd post))
      \<longrightarrow> (\<exists>rec. extract_text3 text filename = Inr rec \<and>
                 map_of rec ''work_order_id'' = Some (PStr ''WO-12345''))) \<and>
   (re_search False p3_work_order_id text = None
      \<longrightarrow> (\<exists>rec. extract_text3 text filename = Inr rec \<and>
                 map_of rec ''work_order_id'' = Some (PStr []))) \<and>
   (\<exists>rec. extract_text2 text filename = Inr rec \<and>
          map_of rec ''work_order_id'' \<noteq> Some (PStr ''WO-12345'')) \<and>
   (cut ''Notification No.'' text = Some (pre, '' 12345'' @ post) \<and> (post = [] \<or> \<not> digit (hd post))
      \<longrightarrow> (\<exists>rec. extract_text2 text filename = Inr rec \<and>
                 map_of rec ''work_order_id'' = Some (PStr ''12345''))) \<and>
   (re_search False p2_work_order_id text = None
      \<longrightarrow> (\<exists>rec. extract_text2 text filename = Inr rec \<and>
                 map_of rec ''work_order_id'' = Some (PStr [])))"
proof -
  have a: "\<exists>rec. extract_text1 text = Inr rec \<and> map_of rec ''work_order_id'' = Some (PStr ''WO-12345'')"
    if c: "cut ''Work Order'' text = Some (pre, '' WO-12345'' @ post)"
      and p: "post = [] \<or> \<not> digit (hd post)"
  proof -
    from search_literal_first [OF _ c work_order_tail [OF p]]
    obtain m where "re_search False p1_work_order_id text = Some m" "groups m = [1 \<mapsto> ''12345'']"
      by (auto simp: p1_work_order_id_def)
    then have "field_value1 ''work_order_id'' (re_search False p1_work_order_id text) = PStr ''WO-12345''"
      by (simp add: field_value1_def group_text_def strip_def lstrip_def rstrip_def isspace_def)
    then show ?thesis by (simp add: extract_text1_eq map_of_record1_work_order)
  qed
  have b: "\<exists>rec. extract_text1 text = Inr rec \<and> map_of rec ''work_order_id'' = Some PNone"
    if "re_search False p1_work_order_id text = None"
    using that by (simp add: extract_text1_eq map_of_record1_work_order field_value1_def)
  have c: "\<exists>rec. extract_text3 text filename = Inr rec \<and>
      map_of rec ''work_order_id'' = Some (PStr ''WO-12345'')"
    if c: "cut ''Work Order Number'' text = Some (pre, '' WO-12345'' @ post)"
      and p: "post = [] \<or> \<not> digit (hd post)"
  proof -
    from search_literal_first [OF _ c work_order_number_tail [OF p]]
    obtain m where "re_search False p3_work_order_id text = Some m" "groups m = [1 \<mapsto> ''WO-12345'']"
      by (auto simp: p3_work_order_id_def)
    then have "find_value text False p3_work_order_id = ''WO-12345''"
      by (simp add: find_value_def group_text_def strip_def lstrip_def rstrip_def isspace_def)
    then show ?thesis by (simp add: extract_text3_eq map_of_record3_work_order)
  qed
  have d: "\<exists>rec. extract_text3 text filename = Inr rec \<and> map_of rec ''work_order_id'' = Some (PStr [])"
    if "re_search False p3_work_order_id text = None"
    using that by (simp add: extract_text3_eq map_of_record3_work_order find_value_def)
  have e: "\<exists>rec. extract_text2 text filename = Inr rec \<and>
          map_of rec ''work_order_id'' \<noteq> Some (PStr ''WO-12345'')"
    using notification_never_WO [of "text" False]
    by (simp add: extract_text2_eq map_of_record2_work_order)
  have f: "\<exists>rec. extract_text2 text filename = Inr rec \<and>
      map_of rec ''work_order_id'' = Some (PStr ''12345'')"
    if c: "cut ''Notification No.'' text = Some (pre, '' 12345'' @ post)"
      and p: "post = [] \<or> \<not> digit (hd post)"
  proof -
    from search_literal_first [OF _ c notification_tail [OF p]]
    obtain m where "re_search False p2_work_order_id text = Some m" "groups m = [1 \<mapsto> ''12345'']"
      by (auto simp: p2_work_order_id_def)
    then have "find_value text False p2_work_order_id = ''12345''"
      by (simp add: find_value_def group_text_def strip_def lstrip_def rstrip_def isspace_def)
    then show ?thesis by (simp add: extract_text2_eq map_of_record2_work_order)
  qed
  have g: "\<exists>rec. extract_text2 text filename = Inr rec \<and> map_of rec ''work_order_id'' = Some (PStr [])"
    if "re_search False p2_work_order_id text = None"
    using that by (simp add: extract_text2_eq map_of_record2_work_order find_value_def)
  from a b c d e f g show ?thesis by blast
qed

text \<open>
  C6 as stated fails: on the text \<open>Work Order WO-12345\<close> the third layout, whose pattern
  asks for \<open>Work Order Number\<close>, and the second layout, which reads
  \<open>Notification No.\<close>, leave \<open>work_order_id\<close> empty.
\<close>

theorem work_order_phrase_not_read:
  "extract_text3 ''Work Order WO-12345'' ''report'' =
     Inr [(''work_order_id'', PStr []), (''machine_id'', PStr []), (''subject'', PStr []),
          (''description'', PStr []), (''malfunction_start'', PStr []),
          (''machine_release'', PStr []), (''time_in'', PStr []), (''time_out'', PStr []),
          (''down_time_hours'', PStr []), (''site_hours'', PStr []), (''travel_hours'', PStr []),
          (''total_work_hours'', PStr []), (''report_source'', PStr ''varian''),
          (''file_name'', PStr ''report'')] \<and>
   extract_text2 ''Work Order WO-12345'' ''report'' =
     Inr [(''work_order_id'', PStr []), (''machine_id'', PStr []), (''subject'', PStr []),
          (''description'', PStr []), (''malfunction_start'', PStr []),
          (''machine_release'', PStr []), (''time_in'', PStr []), (''time_out'', PStr []),
          (''down_time_hours'', PStr []), (''site_hours'', PStr []), (''travel_hours'', PStr []),
          (''total_work_hours'', PStr []), (''report_source'', PStr ''varian''),
          (''file_name'', PStr ''report'')]"
proof -
  have n2: "re_search d p2_work_order_id ''Work Order WO-12345'' = None"
    "re_search d p2_machine_id ''Work Order WO-12345'' = None"
    "re_search d p2_subject ''Work Order WO-12345'' = None"
    "re_search d p2_description ''Work Order WO-12345'' = None"
    "re_search d p2_malfunction_start ''Work Order WO-12345'' = None"
    "re_search d p2_machine_release ''Work Order WO-12345'' = None"
    "re_search d p2_hours_block ''Work Order WO-12345'' = None" for d
    by (simp_all add: pattern_defs)
  have t2: "re_search False p2_time_entries ''Work Order WO-12345'' = None"
    by (simp add: rx_defs pattern_defs)
  have n3: "re_search d p3_work_order_id ''Work Order WO-12345'' = None"
    "re_search d p3_machine_id ''Work Order WO-12345'' = None"
    "re_search d p3_subject ''Work Order WO-12345'' = None"
    "re_search d p3_description ''Work Order WO-12345'' = None"
    "re_search d p3_times ''Work Order WO-12345'' = None"
    "re_search d p3_hours ''Work Order WO-12345'' = None" for d
    by (simp_all add: pattern_defs)
  note v = find_value_None [OF n2(1)] find_value_None [OF n2(2)] find_value_None [OF n2(3)]
    find_value_None [OF n2(4)] find_value_None [OF n2(5)] find_value_None [OF n2(6)]
    captured_None [OF n2(7)] re_findall_Nil [OF t2]
    find_value_None [OF n3(1)] find_value_None [OF n3(2)] find_value_None [OF n3(3)]
    find_value_None [OF n3(4)] captured_None [OF n3(5)] captured_None [OF n3(6)]
  show ?thesis
    unfolding extract_text2_eq extract_text3_eq record2_def record3_def Let_def v strip_Nil
    by simp
qed

text \<open>
  C6 at three short reports, one for each layout, and at a text without a work order.
\<close>

theorem work_order_id_extraction_witness:
  "cut ''Work Order'' ''Customer: X\<newline>Work Order WO-12345\<newline>Asset H19''
     = Some (''Customer: X\<newline>'', '' WO-12345'' @ ''\<newline>Asset H19'') \<and>
   \<not> digit (hd ''\<newline>Asset H19'') \<and>
   (\<exists>rec. extract_text1 ''Customer: X\<newline>Work Order WO-12345\<newline>Asset H19'' = Inr rec \<and>
          map_of rec ''work_order_id'' = Some (PStr ''WO-12345'')) \<and>
   re_search False p1_work_order_id ''Asset H19'' = None \<and>
   (\<exists>rec. extract_text1 ''Asset H19'' = Inr rec \<and> map_of rec ''work_order_id'' = Some PNone) \<and>
   cut ''Work Order Number'' ''Work Order Number WO-12345\<newline>Installed Product H19''
     = Some ([], '' WO-12345'' @ ''\<newline>Installed Product H19'') \<and>
   \<not> digit (hd ''\<newline>Installed Product H19'') \<and>
   (\<exists>rec. extract_text3 ''Work Order Number WO-12345\<newline>Installed Product H19'' ''report'' = Inr rec \<and>
          map_of rec ''work_order_id'' = Some (PStr ''WO-12345'')) \<and>
   re_search False p3_work_order_id ''Asset H19'' = None \<and>
   (\<exists>rec. extract_text3 ''Asset H19'' ''report'' = Inr rec \<and>
          map_of rec ''work_order_id'' = Some (PStr [])) \<and>
   cut ''Notification No.'' ''Notification No. 12345\<newline>Reason for Call GFIL''
     = Some ([], '' 12345'' @ ''\<newline>Reason for Call GFIL'') \<and>
   \<not> digit (hd ''\<newline>Reason for Call GFIL'') \<and>
   (\<exists>rec. extract_text2 ''Notification No. 12345\<newline>Reason for Call GFIL'' ''report'' = Inr rec \<and>
          map_of rec ''work_order_id'' = Some (PStr ''12345'')) \<and>
   re_search False p2_work_order_id ''Asset H19'' = None \<and>
   (\<exists>rec. extract_text2 ''Asset H19'' ''report'' = Inr rec \<and>
          map_of rec ''work_order_id'' = Some (PStr []))"
proof -
  note P = work_order_id_extraction
  note P1 = P [THEN conjunct1, rule_format]
  note P2 = P [THEN conjunct2, THEN conjunct1, rule_format]
  note P3 = P [THEN conjunct2, THEN conjunct2, THEN conjunct1, rule_format]
  note P4 = P [THEN conjunct2, THEN conjunct2, THEN conjunct2, THEN conjunct1, rule_format]
  note P6 = P [THEN conjunct2, THEN conjunct2, THEN conjunct2, THEN conjunct2, THEN conjunct2,
      THEN conjunct1, rule_format]
  note P7 = P [THEN conjunct2, THEN conjunct2, THEN conjunct2, THEN conjunct2, THEN conjunct2,
      THEN conjunct2, rule_format]
  have c1: "cut ''Work Order'' ''Customer: X\<newline>Work Order WO-12345\<newline>Asset H19''
     = Some (''Customer: X\<newline>'', '' WO-12345'' @ ''\<newline>Asset H19'')" by simp
  have d1: "\<not> digit (hd ''\<newline>Asset H19'')" by (simp add: digit_def)
  have n1: "re_search False p1_work_order_id ''Asset H19'' = None" by (simp add: pattern_defs)
  have c3: "cut ''Work Order Number'' ''Work Order Number WO-12345\<newline>Installed Product H19''
     = Some ([], '' WO-12345'' @ ''\<newline>Installed Product H19'')" by simp
  have d3: "\<not> digit (hd ''\<newline>Installed Product H19'')" by (simp add: digit_def)
  have n3: "re_search False p3_work_order_id ''Asset H19'' = None" by (simp add: pattern_defs)
  have c2: "cut ''Notification No.'' ''Notification No. 12345\<newline>Reason for Call GFIL''
     = Some ([], '' 12345'' @ ''\<newline>Reason for Call GFIL'')" by simp
  have d2: "\<not> digit (hd ''\<newline>Reason for Call GFIL'')" by (simp add: digit_def)
  have n2: "re_search False p2_work_order_id ''Asset H19'' = None" by (simp add: pattern_defs)
  from c1 d1 P1 [OF conjI [OF c1 disjI2 [OF d1]]] n1 P2 [OF n1]
    c3 d3 P3 [OF conjI [OF c3 disjI2 [OF d3]]] n3 P4 [OF n3]
    c2 d2 P6 [OF conjI [OF c2 disjI2 [OF d2]]] n2 P7 [OF n2]
  show ?thesis by (intro conjI)
qed


lemma findall_first:
  "re_findall d p s = (case re_search d p s of
      None \<Rightarrow> []
    | Some m \<Rightarrow> m # re_findall_from d p (whole m = []) (remainder m))"
  unfolding re_findall_def by (subst re_findall_from.simps) simp

text \<open>
  C4 (as amended). Only the second layout derives \<open>time_in\<close> and \<open>time_out\<close> from all
  the rows of dates and times that \<open>findall\<close> finds in the text: \<open>time_in\<close> is the date
  and the start time of the first row, \<open>time_out\<close> the date of the last row and its end
  time, and both are empty without a row. The third layout takes both from the first
  match of its pattern, the header \<open>Time In Time Out Malfunction Start Machine Release
  Time\<close> followed by four stamps: \<open>time_in\<close> is the first stamp and \<open>time_out\<close> the
  second stamp of that one row (empty without a match). The first layout takes each from
  the first match of a field with a label, \<open>Time In\<close> and \<open>Time Out\<close> (\<open>None\<close> without a
  match).
\<close>

theorem time_in_out_sources:
  "(\<exists>rec. extract_text2 text filename = Inr rec \<and>
      map_of rec ''time_in'' = Some (PStr
        (case re_findall False p2_time_entries text of
           [] \<Rightarrow> []
         | row # rows \<Rightarrow> group_text row 1 @ '' '' @ group_text row 2)) \<and>
      map_of rec ''time_out'' = Some (PStr
        (case re_findall False p2_time_entries text of
           [] \<Rightarrow> []
         | row # rows \<Rightarrow> group_text (last (row # rows)) 1 @ '' '' @ group_text (last (row # rows)) 3))) \<and>
   (\<exists>rec. extract_text3 text filename = Inr rec \<and>
      map_of rec ''time_in'' = Some (PStr
        (case re_search False p3_times text of None \<Rightarrow> [] | Some m \<Rightarrow> group_text m 1)) \<and>
      map_of rec ''time_out'' = Some (PStr
        (case re_search False p3_times text of None \<Rightarrow> [] | Some m \<Rightarrow> group_text m 2))) \<and>
   (\<exists>rec. extract_text1 text = Inr rec \<and>
      map_of rec ''time_in'' = Some
        (case re_search False p1_time_in text of
           None \<Rightarrow> PNone | Some m \<Rightarrow> PStr (strip (group_text m 1))) \<and>
      map_of rec ''time_out'' = Some
        (case re_search False p1_time_out text of
           None \<Rightarrow> PNone | Some m \<Rightarrow> PStr (strip (group_text m 1))))"
proof -
  have 2: "map_of (record2 text filename) ''time_in'' = Some (PStr
        (case re_findall False p2_time_entries text of
           [] \<Rightarrow> []
         | row # rows \<Rightarrow> group_text row 1 @ '' '' @ group_text row 2)) \<and>
      map_of (record2 text filename) ''time_out'' = Some (PStr
        (case re_findall False p2_time_entries text of
           [] \<Rightarrow> []
         | row # rows \<Rightarrow> group_text (last (row # rows)) 1 @ '' '' @ group_text (last (row # rows)) 3))"
    by (cases "re_findall False p2_time_entries text") (simp_all add: record2_def Let_def)
  have 3: "map_of (record3 text filename) ''time_in'' = Some (PStr
        (case re_search False p3_times text of None \<Rightarrow> [] | Some m \<Rightarrow> group_text m 1)) \<and>
      map_of (record3 text filename) ''time_out'' = Some (PStr
        (case re_search False p3_times text of None \<Rightarrow> [] | Some m \<Rightarrow> group_text m 2))"
    by (simp add: record3_def captured_def split: option.splits)
  have 1: "map_of (record1 text) ''time_in'' = Some
        (case re_search False p1_time_in text of
           None \<Rightarrow> PNone | Some m \<Rightarrow> PStr (strip (group_text m 1))) \<and>
      map_of (record1 text) ''time_out'' = Some
        (case re_search False p1_time_out text of
           None \<Rightarrow> PNone | Some m \<Rightarrow> PStr (strip (group_text m 1)))"
    by (simp add: record1_def fields1_def field_value1_def split: option.splits)
  from 1 2 3 show ?thesis
    using extract_text1_eq [of "text"] extract_text2_eq [of "text" filename]
      extract_text3_eq [of "text" filename]
    by blast
qed

text \<open>
  C4 as stated fails for the third layout: under one header with two rows of stamps,
  \<open>time_out\<close> is the second stamp of the first row, not the end of the last row.
\<close>

theorem third_layout_takes_first_row:
  "field (extract_text3 two_rows ''report'') ''time_in'' = Some (PStr ''01/02/2024 08:00'') \<and>
   field (extract_text3 two_rows ''report'') ''time_out'' = Some (PStr ''01/02/2024 12:00'') \<and>
   ''01/02/2024 12:00'' \<noteq> ''01/03/2024 17:00''"
proof -
  have c: "captured False p3_times two_rows 1 = ''01/02/2024 08:00''"
    "captured False p3_times two_rows 2 = ''01/02/2024 12:00''"
    by (simp_all add: two_rows_def eval_defs)
  from c(1) have f1: "field (extract_text3 two_rows ''report'') ''time_in''
      = Some (PStr ''01/02/2024 08:00'')"
    by (simp add: field_def extract_text3_eq record3_def)
  from c(2) have f2: "field (extract_text3 two_rows ''report'') ''time_out''
      = Some (PStr ''01/02/2024 12:00'')"
    by (simp add: field_def extract_text3_eq record3_def)
  from f1 f2 show ?thesis by simp
qed

lemma two_entries_rows:
  "map (\<lambda>m. (group_text m 1, group_text m 2, group_text m 3)) (re_findall False p2_time_entries two_entries)
     = [(''1/2/2024'', ''9:00 AM'', ''11:30 AM''), (''1/3/2024'', ''10:15 AM'', ''4:45 PM'')]"
  unfolding re_findall_def
  apply (subst re_findall_from.simps)
  apply (simp add: two_entries_def eval_defs)
  apply (subst re_findall_from.simps)
  apply (simp add: eval_defs)
  apply (subst re_findall_from.simps)
  apply (simp add: eval_defs)
  done

text \<open>
  C4 at a text with two rows of a date, a start and an end time: the second layout takes
  the start of the first and the end of the last row; the other two layouts find nothing.
\<close>

theorem time_in_out_sources_witness:
  "field (extract_text2 two_entries ''report'') ''time_in'' = Some (PStr ''1/2/2024 9:00 AM'') \<and>
   field (extract_text2 two_entries ''report'') ''time_out'' = Some (PStr ''1/3/2024 4:45 PM'') \<and>
   field (extract_text3 two_entries ''report'') ''time_out'' = Some (PStr []) \<and>
   field (extract_text1 two_entries) ''time_out'' = Some PNone"
proof -
  note P = time_in_out_sources [of two_entries "''report''"]
  obtain r1 r2 where r: "re_findall False p2_time_entries two_entries = [r1, r2]"
    and g: "group_text r1 1 = ''1/2/2024''" "group_text r1 2 = ''9:00 AM''"
      "group_text r2 1 = ''1/3/2024''" "group_text r2 3 = ''4:45 PM''"
    using two_entries_rows by auto
  have n3: "re_search False p3_times two_entries = None"
    by (simp add: two_entries_def pattern_defs)
  have n1: "re_search False p1_time_out two_entries = None"
    by (simp add: two_entries_def pattern_defs)
  from P [THEN conjunct1] r g
  have 2: "field (extract_text2 two_entries ''report'') ''time_in'' = Some (PStr ''1/2/2024 9:00 AM'') \<and>
    field (extract_text2 two_entries ''report'') ''time_out'' = Some (PStr ''1/3/2024 4:45 PM'')"
    by (auto simp: field_def)
  from P [THEN conjunct2, THEN conjunct1] n3
  have 3: "field (extract_text3 two_entries ''report'') ''time_out'' = Some (PStr [])"
    by (auto simp: field_def)
  from P [THEN conjunct2, THEN conjunct2] n1
  have 1: "field (extract_text1 two_entries) ''time_out'' = Some PNone"
    by (auto simp: field_def)
  from 1 2 3 show ?thesis by simp
qed


lemma first_seen_step_known:
  "set xs \<subseteq> set seen \<Longrightarrow>
   foldl (\<lambda>seen x. if x \<in> set seen then seen else seen @ [x]) seen xs = seen"
  by (induction xs) auto

lemma first_seen_step_new:
  "distinct (seen @ xs) \<Longrightarrow>
   foldl (\<lambda>seen x. if x \<in> set seen then seen else seen @ [x]) seen xs = seen @ xs"
  by (induction xs arbitrary: seen) auto

lemma first_seen_uniform:
  assumes "recs \<noteq> []" and "\<forall>r \<in> set recs. map fst r = ks" and "distinct ks"
  shows "first_seen (concat (map (map fst) recs)) = ks"
proof -
  from assms(1) obtain r rest where recs: "recs = r # rest" by (cases recs) auto
  with assms(2) have r: "map fst r = ks" and rest: "\<forall>x \<in> set rest. map fst x = ks" by auto
  from rest have sub: "set (concat (map (map fst) rest)) \<subseteq> set ks" by auto
  have "first_seen (concat (map (map fst) recs))
      = foldl (\<lambda>seen x. if x \<in> set seen then seen else seen @ [x])
          (foldl (\<lambda>seen x. if x \<in> set seen then seen else seen @ [x]) [] ks)
          (concat (map (map fst) rest))"
    by (simp add: first_seen_def recs r)
  also have "foldl (\<lambda>seen x. if x \<in> set seen then seen else seen @ [x]) [] ks = ks"
    using first_seen_step_new [of "[]" ks] assms(3) by simp
  also have "foldl (\<lambda>seen x. if x \<in> set seen then seen else seen @ [x]) ks
      (concat (map (map fst) rest)) = ks"
    using sub by (rule first_seen_step_known)
  finally show ?thesis .
qed

lemma map_of_computed:
  "map_of (map (\<lambda>n. (n, f n)) ks) k = (if k \<in> set ks then Some (f k) else None)"
  by (induction ks) auto

lemma table_row_DataFrame:
  assumes "\<forall>r \<in> set recs. map fst r = ks" and "distinct ks" and "i < length recs"
  shows "table_row (DataFrame pd recs) i
           = map (\<lambda>n. (n, frame_column pd (map (\<lambda>r. dict_get r n (PFloat ''nan'')) recs) ! i)) ks"
proof -
  from assms(3) have ne: "recs \<noteq> []" by auto
  show ?thesis
    by (simp add: table_row_def DataFrame_def first_seen_uniform [OF ne assms(1,2)] comp_def)
qed

lemma DataFrame_row_strings:
  assumes keys: "\<forall>r \<in> set recs. map fst r = ks" and d: "distinct ks" and i: "i < length recs"
    and ks: "keeps_strings pd" and v: "map_of (recs ! i) k = Some (PStr s)"
  shows "map_of (table_row (DataFrame pd recs) i) k = Some (PStr s)"
proof -
  from v have "k \<in> fst ` set (recs ! i)" by (rule map_of_SomeD [THEN imageI [where f = fst], simplified])
  moreover from keys i have "map fst (recs ! i) = ks" by simp
  ultimately have k: "k \<in> set ks" by (metis set_map)
  let ?vs = "map (\<lambda>r. dict_get r k (PFloat ''nan'')) recs"
  from i v have "i < length ?vs" "?vs ! i = PStr s" by (simp_all add: dict_get_def)
  with ks have "frame_column pd ?vs ! i = PStr s" unfolding keeps_strings_def by blast
  with k show ?thesis
    by (simp add: table_row_DataFrame [OF keys d i] map_of_computed)
qed

lemma distinct_columns14: "distinct columns14"
  by (simp add: columns14_def)

lemma batch_table:
  assumes ok: "\<And>x. x \<in> set xs \<Longrightarrow> f x = Inr (g x)"
    and keys: "\<And>x. x \<in> set xs \<Longrightarrow> map fst (g x) = columns14"
  shows "\<exists>df. bind_exn (sequence (map f xs)) (\<lambda>rs. Inr (DataFrame pd rs)) = Inr df \<and>
           nrows df = length xs \<and>
           (\<forall>i < length xs. map fst (table_row df i) = columns14 \<and>
              (keeps_strings pd \<longrightarrow>
                 (\<forall>k s. map_of (g (xs ! i)) k = Some (PStr s)
                    \<longrightarrow> map_of (table_row df i) k = Some (PStr s))))"
proof -
  have s: "sequence (map f xs) = Inr (map g xs)"
    using ok by (rule sequence_Inr)
  have u: "\<forall>r \<in> set (map g xs). map fst r = columns14"
    using keys by auto
  have rows: "map fst (table_row (DataFrame pd (map g xs)) i) = columns14 \<and>
      (keeps_strings pd \<longrightarrow>
         (\<forall>k s. map_of (g (xs ! i)) k = Some (PStr s)
            \<longrightarrow> map_of (table_row (DataFrame pd (map g xs)) i) k = Some (PStr s)))"
    if i: "i < length xs" for i
  proof -
    from i have i': "i < length (map g xs)" by simp
    have "map fst (table_row (DataFrame pd (map g xs)) i) = columns14"
      by (simp add: table_row_DataFrame [OF u distinct_columns14 i'] comp_def)
    moreover have "map_of (table_row (DataFrame pd (map g xs)) i) k = Some (PStr s)"
      if ks: "keeps_strings pd" and "map_of (g (xs ! i)) k = Some (PStr s)" for k s
      using DataFrame_row_strings [OF u distinct_columns14 i' ks, of k s] that i by simp
    ultimately show ?thesis by blast
  qed
  have "nrows (DataFrame pd (map g xs)) = length xs" by (simp add: DataFrame_def)
  with s rows show ?thesis by (simp add: bind_exn_def)
qed

lemma sequence_returned:
  "sequence (map f xs) = Inr rs \<Longrightarrow> x \<in> set xs \<Longrightarrow> \<exists>r. f x = Inr r"
  by (induction xs arbitrary: rs) (auto split: sum.splits)

lemma keys_record1: "map fst (record1 s) = butlast columns14"
  by (simp add: record1_def fields1_def columns14_def)

lemma process_one_eq:
  "open_pdf f = Inr pages \<Longrightarrow> process_one open_pdf f = Inr (batch_row1 f pages)"
proof -
  assume "open_pdf f = Inr pages"
  moreover have "''file_name'' \<notin> fst ` set (record1 s)" for s
    by (simp add: record1_def fields1_def)
  ultimately show ?thesis
    by (simp add: process_one_def extract_data_from_pdf_def bind_exn_def extract_text1_eq
        dict_set_fresh batch_row1_def)
qed

lemma keys_batch_row1: "map fst (batch_row1 f pages) = columns14"
  by (simp add: batch_row1_def keys_record1 columns14_def)

lemma keys_record2: "map fst (record2 s f) = columns14"
  by (simp add: record2_def Let_def columns14_def)

lemma keys_record3: "map fst (record3 s f) = columns14"
  by (simp add: record3_def columns14_def)

lemma batch_row1_constants:
  "map_of (batch_row1 f pages) ''report_source'' = Some (PStr ''varian'')"
  "map_of (batch_row1 f pages) ''file_name'' = Some (PStr (basename f))"
  by (simp_all add: batch_row1_def record1_def fields1_def)

lemma record2_constants:
  "map_of (record2 s f) ''report_source'' = Some (PStr ''varian'')"
  "map_of (record2 s f) ''file_name'' = Some (PStr f)"
  by (simp_all add: record2_def Let_def)

lemma record3_constants:
  "map_of (record3 s f) ''report_source'' = Some (PStr ''varian'')"
  "map_of (record3 s f) ''file_name'' = Some (PStr f)"
  by (simp_all add: record3_def)

lemma extract_report_data2_eq:
  "open_doc p = Inr pages \<Longrightarrow>
   extract_report_data2 open_doc p
     = Inr (record2 (py_join ''\<newline>'' pages) (splitext_root (basename p)))"
  by (simp add: extract_report_data2_def bind_exn_def extract_text2_eq)

lemma extract_report_data3_eq:
  "open_doc p = Inr pages \<Longrightarrow>
   extract_report_data3 open_doc p
     = Inr (record3 (py_join ''\<newline>'' pages) (splitext_root (basename p)))"
  by (simp add: extract_report_data3_def bind_exn_def extract_text3_eq)

text \<open>
  A batch function returns only if every document could be opened (and, for a folder,
  the folder could be listed): an exception of \<open>open\<close> or \<open>listdir\<close> leaves the function.
\<close>

lemma process_one_opens:
  "process_one open_pdf f = Inr r \<Longrightarrow> \<exists>pages. open_pdf f = Inr pages"
  by (cases "open_pdf f") (simp_all add: process_one_def extract_data_from_pdf_def bind_exn_def)

lemma extract_report_data2_opens:
  "extract_report_data2 open_doc p = Inr r \<Longrightarrow> \<exists>pages. open_doc p = Inr pages"
  by (cases "open_doc p") (simp_all add: extract_report_data2_def bind_exn_def)

lemma extract_report_data3_opens:
  "extract_report_data3 open_doc p = Inr r \<Longrightarrow> \<exists>pages. open_doc p = Inr pages"
  by (cases "open_doc p") (simp_all add: extract_report_data3_def bind_exn_def)

lemma process_multiple_pdfs_opens:
  assumes "process_multiple_pdfs pd open_pdf pdf_files = Inr df"
  shows "\<forall>f \<in> set pdf_files. \<exists>pages. open_pdf f = Inr pages"
proof
  fix f assume f: "f \<in> set pdf_files"
  from assms obtain rs where "sequence (map (process_one open_pdf) pdf_files) = Inr rs"
    by (auto simp: process_multiple_pdfs_def bind_exn_def split: sum.splits)
  from sequence_returned [OF this f] obtain r where "process_one open_pdf f = Inr r" by blast
  then show "\<exists>pages. open_pdf f = Inr pages" by (rule process_one_opens)
qed

lemma extract_from_folder2_opens:
  assumes "extract_from_folder2 pd listdir open_doc folder = Inr df"
  shows "\<exists>names. listdir folder = Inr names \<and>
           (\<forall>f \<in> set (filter is_pdf names). \<exists>pages. open_doc (path_join folder f) = Inr pages)"
proof -
  from assms obtain names rs where n: "listdir folder = Inr names"
    and s: "sequence (map (\<lambda>file. extract_report_data2 open_doc (path_join folder file))
              (filter is_pdf names)) = Inr rs"
    by (auto simp: extract_from_folder2_def bind_exn_def split: sum.splits)
  have "\<exists>pages. open_doc (path_join folder f) = Inr pages" if "f \<in> set (filter is_pdf names)" for f
  proof -
    from sequence_returned [OF s that]
    obtain r where "extract_report_data2 open_doc (path_join folder f) = Inr r" by blast
    then show ?thesis by (rule extract_report_data2_opens)
  qed
  with n show ?thesis by blast
qed

lemma extract_from_folder3_opens:
  assumes "extract_from_folder3 pd listdir open_doc folder = Inr df"
  shows "\<exists>names. listdir folder = Inr names \<and>
           (\<forall>f \<in> set (filter is_pdf names). \<exists>pages. open_doc (path_join folder f) = Inr pages)"
proof -
  from assms obtain names rs where n: "listdir folder = Inr names"
    and s: "sequence (map (\<lambda>file. extract_report_data3 open_doc (path_join folder file))
              (filter is_pdf names)) = Inr rs"
    by (auto simp: extract_from_folder3_def bind_exn_def split: sum.splits)
  have "\<exists>pages. open_doc (path_join folder f) = Inr pages" if "f \<in> set (filter is_pdf names)" for f
  proof -
    from sequence_returned [OF s that]
    obtain r where "extract_report_data3 open_doc (path_join folder f) = Inr r" by blast
    then show ?thesis by (rule extract_report_data3_opens)
  qed
  with n show ?thesis by blast
qed

text \<open>
  The three batch functions where every document can be opened (and, for a folder, the
  folder can be listed): the table that is returned, row by row.
\<close>

lemma batch1_rows:
  assumes opens: "\<forall>f \<in> set pdf_files. \<exists>pages. open_pdf f = Inr pages"
  shows "\<exists>df. process_multiple_pdfs pd open_pdf pdf_files = Inr df \<and>
         nrows df = length pdf_files \<and>
         (\<forall>i < length pdf_files. \<exists>rec.
            process_one open_pdf (pdf_files ! i) = Inr rec \<and>
            map fst (table_row df i) = columns14 \<and>
            (keeps_strings pd \<longrightarrow>
               (\<forall>k s. map_of rec k = Some (PStr s) \<longrightarrow> map_of (table_row df i) k = Some (PStr s)) \<and>
               map_of (table_row df i) ''report_source'' = Some (PStr ''varian'') \<and>
               map_of (table_row df i) ''file_name'' = Some (PStr (basename (pdf_files ! i)))))"
proof -
  let ?g = "\<lambda>f. batch_row1 f (projr (open_pdf f))"
  have ok: "process_one open_pdf f = Inr (?g f)" if "f \<in> set pdf_files" for f
  proof -
    from opens that obtain pages where "open_pdf f = Inr pages" by blast
    then show ?thesis by (simp add: process_one_eq)
  qed
  have keys: "map fst (?g f) = columns14" for f by (rule keys_batch_row1)
  from batch_table [of pdf_files "process_one open_pdf" ?g pd, OF ok keys]
  obtain df where df: "process_multiple_pdfs pd open_pdf pdf_files = Inr df"
    "nrows df = length pdf_files"
    and rows: "\<forall>i < length pdf_files. map fst (table_row df i) = columns14 \<and>
        (keeps_strings pd \<longrightarrow>
           (\<forall>k s. map_of (?g (pdf_files ! i)) k = Some (PStr s)
              \<longrightarrow> map_of (table_row df i) k = Some (PStr s)))"
    unfolding process_multiple_pdfs_def by blast
  have "\<exists>rec. process_one open_pdf (pdf_files ! i) = Inr rec \<and>
      map fst (table_row df i) = columns14 \<and>
      (keeps_strings pd \<longrightarrow>
         (\<forall>k s. map_of rec k = Some (PStr s) \<longrightarrow> map_of (table_row df i) k = Some (PStr s)) \<and>
         map_of (table_row df i) ''report_source'' = Some (PStr ''varian'') \<and>
         map_of (table_row df i) ''file_name'' = Some (PStr (basename (pdf_files ! i))))"
    if i: "i < length pdf_files" for i
  proof -
    from i have p: "process_one open_pdf (pdf_files ! i) = Inr (?g (pdf_files ! i))"
      by (simp add: ok)
    from rows i have r: "map fst (table_row df i) = columns14"
      "keeps_strings pd \<longrightarrow>
         (\<forall>k s. map_of (?g (pdf_files ! i)) k = Some (PStr s)
           \<longrightarrow> map_of (table_row df i) k = Some (PStr s))" by blast+
    from r(2) batch_row1_constants [of "pdf_files ! i" "projr (open_pdf (pdf_files ! i))"]
    have c: "keeps_strings pd \<longrightarrow>
        map_of (table_row df i) ''report_source'' = Some (PStr ''varian'') \<and>
        map_of (table_row df i) ''file_name'' = Some (PStr (basename (pdf_files ! i)))" by blast
    from p r c show ?thesis by blast
  qed
  with df show ?thesis by blast
qed

lemma batch2_rows:
  assumes ls: "listdir folder = Inr names"
    and opens: "\<forall>f \<in> set (filter is_pdf names). \<exists>pages. open_doc (path_join folder f) = Inr pages"
  shows "\<exists>df. extract_from_folder2 pd listdir open_doc folder = Inr df \<and>
         nrows df = length (filter is_pdf names) \<and>
         (\<forall>i < length (filter is_pdf names). \<exists>rec.
            extract_report_data2 open_doc (path_join folder (filter is_pdf names ! i)) = Inr rec \<and>
            map fst (table_row df i) = columns14 \<and>
            (keeps_strings pd \<longrightarrow>
               (\<forall>k s. map_of rec k = Some (PStr s) \<longrightarrow> map_of (table_row df i) k = Some (PStr s)) \<and>
               map_of (table_row df i) ''report_source'' = Some (PStr ''varian'') \<and>
               map_of (table_row df i) ''file_name''
                 = Some (PStr (splitext_root (basename (path_join folder (filter is_pdf names ! i)))))))"
proof -
  let ?xs = "filter is_pdf names"
  let ?f = "\<lambda>file. extract_report_data2 open_doc (path_join folder file)"
  let ?g = "\<lambda>file. record2 (py_join ''\<newline>'' (projr (open_doc (path_join folder file))))
      (splitext_root (basename (path_join folder file)))"
  have ok: "?f x = Inr (?g x)" if "x \<in> set ?xs" for x
  proof -
    from opens that obtain pages where "open_doc (path_join folder x) = Inr pages" by blast
    then show ?thesis by (simp add: extract_report_data2_eq)
  qed
  have keys: "map fst (?g x) = columns14" for x by (rule keys_record2)
  from batch_table [of ?xs ?f ?g pd, OF ok keys] ls
  obtain df where df: "extract_from_folder2 pd listdir open_doc folder = Inr df"
    "nrows df = length ?xs"
    and rows: "\<forall>i < length ?xs. map fst (table_row df i) = columns14 \<and>
        (keeps_strings pd \<longrightarrow>
           (\<forall>k s. map_of (?g (?xs ! i)) k = Some (PStr s)
              \<longrightarrow> map_of (table_row df i) k = Some (PStr s)))"
    unfolding extract_from_folder2_def bind_exn_def by auto
  have "\<exists>rec. ?f (?xs ! i) = Inr rec \<and>
      map fst (table_row df i) = columns14 \<and>
      (keeps_strings pd \<longrightarrow>
         (\<forall>k s. map_of rec k = Some (PStr s) \<longrightarrow> map_of (table_row df i) k = Some (PStr s)) \<and>
         map_of (table_row df i) ''report_source'' = Some (PStr ''varian'') \<and>
         map_of (table_row df i) ''file_name''
           = Some (PStr (splitext_root (basename (path_join folder (?xs ! i))))))"
    if i: "i < length ?xs" for i
  proof -
    from i have "?xs ! i \<in> set ?xs" by (rule nth_mem)
    then have p: "?f (?xs ! i) = Inr (?g (?xs ! i))" by (rule ok)
    from rows i have r: "map fst (table_row df i) = columns14"
      "keeps_strings pd \<longrightarrow>
         (\<forall>k s. map_of (?g (?xs ! i)) k = Some (PStr s)
            \<longrightarrow> map_of (table_row df i) k = Some (PStr s))"
      by blast+
    from r(2) record2_constants
    have c: "keeps_strings pd \<longrightarrow>
        map_of (table_row df i) ''report_source'' = Some (PStr ''varian'') \<and>
        map_of (table_row df i) ''file_name''
          = Some (PStr (splitext_root (basename (path_join folder (?xs ! i)))))" by blast
    from p r c show ?thesis by blast
  qed
  with df show ?thesis by blast
qed

lemma batch3_rows:
  assumes ls: "listdir folder = Inr names"
    and opens: "\<forall>f \<in> set (filter is_pdf names). \<exists>pages. open_doc (path_join folder f) = Inr pages"
  shows "\<exists>df. extract_from_folder3 pd listdir open_doc folder = Inr df \<and>
         nrows df = length (filter is_pdf names) \<and>
         (\<forall>i < length (filter is_pdf names). \<exists>rec.
            extract_report_data3 open_doc (path_join folder (filter is_pdf names ! i)) = Inr rec \<and>
            map fst (table_row df i) = columns14 \<and>
            (keeps_strings pd \<longrightarrow>
               (\<forall>k s. map_of rec k = Some (PStr s) \<longrightarrow> map_of (table_row df i) k = Some (PStr s)) \<and>
               map_of (table_row df i) ''report_source'' = Some (PStr ''varian'') \<and>
               map_of (table_row df i) ''file_name''
                 = Some (PStr (splitext_root (basename (path_join folder (filter is_pdf names ! i)))))))"
proof -
  let ?xs = "filter is_pdf names"
  let ?f = "\<lambda>file. extract_report_data3 open_doc (path_join folder file)"
  let ?g = "\<lambda>file. record3 (py_join ''\<newline>'' (projr (open_doc (path_join folder file))))
      (splitext_root (basename (path_join folder file)))"
  have ok: "?f x = Inr (?g x)" if "x \<in> set ?xs" for x
  proof -
    from opens that obtain pages where "open_doc (path_join folder x) = Inr pages" by blast
    then show ?thesis by (simp add: extract_report_data3_eq)
  qed
  have keys: "map fst (?g x) = columns14" for x by (rule keys_record3)
  from batch_table [of ?xs ?f ?g pd, OF ok keys] ls
  obtain df where df: "extract_from_folder3 pd listdir open_doc folder = Inr df"
    "nrows df = length ?xs"
    and rows: "\<forall>i < length ?xs. map fst (table_row df i) = columns14 \<and>
        (keeps_strings pd \<longrightarrow>
           (\<forall>k s. map_of (?g (?xs ! i)) k = Some (PStr s)
              \<longrightarrow> map_of (table_row df i) k = Some (PStr s)))"
    unfolding extract_from_folder3_def bind_exn_def by auto
  have "\<exists>rec. ?f (?xs ! i) = Inr rec \<and>
      map fst (table_row df i) = columns14 \<and>
      (keeps_strings pd \<longrightarrow>
         (\<forall>k s. map_of rec k = Some (PStr s) \<longrightarrow> map_of (table_row df i) k = Some (PStr s)) \<and>
         map_of (table_row df i) ''report_source'' = Some (PStr ''varian'') \<and>
         map_of (table_row df i) ''file_name''
           = Some (PStr (splitext_root (basename (path_join folder (?xs ! i))))))"
    if i: "i < length ?xs" for i
  proof -
    from i have "?xs ! i \<in> set ?xs" by (rule nth_mem)
    then have p: "?f (?xs ! i) = Inr (?g (?xs ! i))" by (rule ok)
    from rows i have r: "map fst (table_row df i) = columns14"
      "keeps_strings pd \<longrightarrow>
         (\<forall>k s. map_of (?g (?xs ! i)) k = Some (PStr s)
            \<longrightarrow> map_of (table_row df i) k = Some (PStr s))"
      by blast+
    from r(2) record3_constants
    have c: "keeps_strings pd \<longrightarrow>
        map_of (table_row df i) ''report_source'' = Some (PStr ''varian'') \<and>
        map_of (table_row df i) ''file_name''
          = Some (PStr (splitext_root (basename (path_join folder (?xs ! i)))))" by blast
    from p r c show ?thesis by blast
  qed
  with df show ?thesis by blast
qed

text \<open>
  Each batch function in full: it returns where every document can be opened, and
  whatever it returns is the table of these rows.
\<close>

lemma batch1:
  "((\<forall>f \<in> set pdf_files. \<exists>pages. open_pdf f = Inr pages) \<longrightarrow>
      (\<exists>t. process_multiple_pdfs pd open_pdf pdf_files = Inr t)) \<and>
   (process_multiple_pdfs pd open_pdf pdf_files = Inr df \<longrightarrow>
      (\<forall>f \<in> set pdf_files. \<exists>pages. open_pdf f = Inr pages) \<and>
      nrows df = length pdf_files \<and>
      (\<forall>i < length pdf_files. \<exists>rec.
         process_one open_pdf (pdf_files ! i) = Inr rec \<and>
         map fst (table_row df i) = columns14 \<and>
         (keeps_strings pd \<longrightarrow>
            (\<forall>k s. map_of rec k = Some (PStr s) \<longrightarrow> map_of (table_row df i) k = Some (PStr s)) \<and>
            map_of (table_row df i) ''report_source'' = Some (PStr ''varian'') \<and>
            map_of (table_row df i) ''file_name'' = Some (PStr (basename (pdf_files ! i))))))"
proof -
  have A: "(\<forall>f \<in> set pdf_files. \<exists>pages. open_pdf f = Inr pages) \<longrightarrow>
      (\<exists>t. process_multiple_pdfs pd open_pdf pdf_files = Inr t)"
    using batch1_rows [of pdf_files open_pdf pd] by blast
  have B: "(\<forall>f \<in> set pdf_files. \<exists>pages. open_pdf f = Inr pages) \<and>
      nrows df = length pdf_files \<and>
      (\<forall>i < length pdf_files. \<exists>rec.
         process_one open_pdf (pdf_files ! i) = Inr rec \<and>
         map fst (table_row df i) = columns14 \<and>
         (keeps_strings pd \<longrightarrow>
            (\<forall>k s. map_of rec k = Some (PStr s) \<longrightarrow> map_of (table_row df i) k = Some (PStr s)) \<and>
            map_of (table_row df i) ''report_source'' = Some (PStr ''varian'') \<and>
            map_of (table_row df i) ''file_name'' = Some (PStr (basename (pdf_files ! i)))))"
    if r: "process_multiple_pdfs pd open_pdf pdf_files = Inr df"
  proof -
    from r have o: "\<forall>f \<in> set pdf_files. \<exists>pages. open_pdf f = Inr pages"
      by (rule process_multiple_pdfs_opens)
    from batch1_rows [OF o, of pd] obtain t where
      t: "process_multiple_pdfs pd open_pdf pdf_files = Inr t"
      and rest: "nrows t = length pdf_files \<and>
        (\<forall>i < length pdf_files. \<exists>rec.
           process_one open_pdf (pdf_files ! i) = Inr rec \<and>
           map fst (table_row t i) = columns14 \<and>
           (keeps_strings pd \<longrightarrow>
              (\<forall>k s. map_of rec k = Some (PStr s) \<longrightarrow> map_of (table_row t i) k = Some (PStr s)) \<and>
              map_of (table_row t i) ''report_source'' = Some (PStr ''varian'') \<and>
              map_of (table_row t i) ''file_name'' = Some (PStr (basename (pdf_files ! i)))))"
      by blast
    from t r have "t = df" by simp
    with rest o show ?thesis by simp
  qed
  from A B show ?thesis by (rule conjI [OF _ impI])
qed

lemma batch2:
  "(listdir folder = Inr names \<and>
    (\<forall>f \<in> set (filter is_pdf names). \<exists>pages. open_doc (path_join folder f) = Inr pages) \<longrightarrow>
      (\<exists>t. extract_from_folder2 pd listdir open_doc folder = Inr t)) \<and>
   (extract_from_folder2 pd listdir open_doc folder = Inr df \<longrightarrow>
      (\<exists>listed. listdir folder = Inr listed \<and>
         (\<forall>f \<in> set (filter is_pdf listed). \<exists>pages. open_doc (path_join folder f) = Inr pages) \<and>
         nrows df = length (filter is_pdf listed) \<and>
         (\<forall>i < length (filter is_pdf listed). \<exists>rec.
            extract_report_data2 open_doc (path_join folder (filter is_pdf listed ! i)) = Inr rec \<and>
            map fst (table_row df i) = columns14 \<and>
            (keeps_strings pd \<longrightarrow>
               (\<forall>k s. map_of rec k = Some (PStr s) \<longrightarrow> map_of (table_row df i) k = Some (PStr s)) \<and>
               map_of (table_row df i) ''report_source'' = Some (PStr ''varian'') \<and>
               map_of (table_row df i) ''file_name''
                 = Some (PStr (splitext_root (basename (path_join folder (filter is_pdf listed ! i)))))))))"
proof -
  have A: "listdir folder = Inr names \<and>
    (\<forall>f \<in> set (filter is_pdf names). \<exists>pages. open_doc (path_join folder f) = Inr pages) \<longrightarrow>
      (\<exists>t. extract_from_folder2 pd listdir open_doc folder = Inr t)"
    using batch2_rows [of listdir folder names open_doc pd] by blast
  have B: "\<exists>listed. listdir folder = Inr listed \<and>
         (\<forall>f \<in> set (filter is_pdf listed). \<exists>pages. open_doc (path_join folder f) = Inr pages) \<and>
         nrows df = length (filter is_pdf listed) \<and>
         (\<forall>i < length (filter is_pdf listed). \<exists>rec.
            extract_report_data2 open_doc (path_join folder (filter is_pdf listed ! i)) = Inr rec \<and>
            map fst (table_row df i) = columns14 \<and>
            (keeps_strings pd \<longrightarrow>
               (\<forall>k s. map_of rec k = Some (PStr s) \<longrightarrow> map_of (table_row df i) k = Some (PStr s)) \<and>
               map_of (table_row df i) ''report_source'' = Some (PStr ''varian'') \<and>
               map_of (table_row df i) ''file_name''
                 = Some (PStr (splitext_root (basename (path_join folder (filter is_pdf listed ! i)))))))"
    if r: "extract_from_folder2 pd listdir open_doc folder = Inr df"
  proof -
    from extract_from_folder2_opens [OF r] obtain listed where ls: "listdir folder = Inr listed"
      and o: "\<forall>f \<in> set (filter is_pdf listed). \<exists>pages. open_doc (path_join folder f) = Inr pages"
      by blast
    from batch2_rows [where listdir = listdir and folder = folder and names = listed
        and open_doc = open_doc and pd = pd, OF ls o] obtain t where
      t: "extract_from_folder2 pd listdir open_doc folder = Inr t"
      and rest: "nrows t = length (filter is_pdf listed) \<and>
         (\<forall>i < length (filter is_pdf listed). \<exists>rec.
            extract_report_data2 open_doc (path_join folder (filter is_pdf listed ! i)) = Inr rec \<and>
            map fst (table_row t i) = columns14 \<and>
            (keeps_strings pd \<longrightarrow>
               (\<forall>k s. map_of rec k = Some (PStr s) \<longrightarrow> map_of (table_row t i) k = Some (PStr s)) \<and>
               map_of (table_row t i) ''report_source'' = Some (PStr ''varian'') \<and>
               map_of (table_row t i) ''file_name''
                 = Some (PStr (splitext_root (basename (path_join folder (filter is_pdf listed ! i)))))))"
      by blast
    from t r have "t = df" by simp
    with rest ls o show ?thesis by (intro exI [of _ listed]) simp
  qed
  from A B show ?thesis by (rule conjI [OF _ impI])
qed

lemma batch3:
  "(listdir folder = Inr names \<and>
    (\<forall>f \<in> set (filter is_pdf names). \<exists>pages. open_doc (path_join folder f) = Inr pages) \<longrightarrow>
      (\<exists>t. extract_from_folder3 pd listdir open_doc folder = Inr t)) \<and>
   (extract_from_folder3 pd listdir open_doc folder = Inr df \<longrightarrow>
      (\<exists>listed. listdir folder = Inr listed \<and>
         (\<forall>f \<in> set (filter is_pdf listed). \<exists>pages. open_doc (path_join folder f) = Inr pages) \<and>
         nrows df = length (filter is_pdf listed) \<and>
         (\<forall>i < length (filter is_pdf listed). \<exists>rec.
            extract_report_data3 open_doc (path_join folder (filter is_pdf listed ! i)) = Inr rec \<and>
            map fst (table_row df i) = columns14 \<and>
            (keeps_strings pd \<longrightarrow>
               (\<forall>k s. map_of rec k = Some (PStr s) \<longrightarrow> map_of (table_row df i) k = Some (PStr s)) \<and>
               map_of (table_row df i) ''report_source'' = Some (PStr ''varian'') \<and>
               map_of (table_row df i) ''file_name''
                 = Some (PStr (splitext_root (basename (path_join folder (filter is_pdf listed ! i)))))))))"
proof -
  have A: "listdir folder = Inr names \<and>
    (\<forall>f \<in> set (filter is_pdf names). \<exists>pages. open_doc (path_join folder f) = Inr pages) \<longrightarrow>
      (\<exists>t. extract_from_folder3 pd listdir open_doc folder = Inr t)"
    using batch3_rows [of listdir folder names open_doc pd] by blast
  have B: "\<exists>listed. listdir folder = Inr listed \<and>
         (\<forall>f \<in> set (filter is_pdf listed). \<exists>pages. open_doc (path_join folder f) = Inr pages) \<and>
         nrows df = length (filter is_pdf listed) \<and>
         (\<forall>i < length (filter is_pdf listed). \<exists>rec.
            extract_report_data3 open_doc (path_join folder (filter is_pdf listed ! i)) = Inr rec \<and>
            map fst (table_row df i) = columns14 \<and>
            (keeps_strings pd \<longrightarrow>
               (\<forall>k s. map_of rec k = Some (PStr s) \<longrightarrow> map_of (table_row df i) k = Some (PStr s)) \<and>
               map_of (table_row df i) ''report_source'' = Some (PStr ''varian'') \<and>
               map_of (table_row df i) ''file_name''
                 = Some (PStr (splitext_root (basename (path_join folder (filter is_pdf listed ! i)))))))"
    if r: "extract_from_folder3 pd listdir open_doc folder = Inr df"
  proof -
    from extract_from_folder3_opens [OF r] obtain listed where ls: "listdir folder = Inr listed"
      and o: "\<forall>f \<in> set (filter is_pdf listed). \<exists>pages. open_doc (path_join folder f) = Inr pages"
      by blast
    from batch3_rows [where listdir = listdir and folder = folder and names = listed
        and open_doc = open_doc and pd = pd, OF ls o] obtain t where
      t: "extract_from_folder3 pd listdir open_doc folder = Inr t"
      and rest: "nrows t = length (filter is_pdf listed) \<and>
         (\<forall>i < length (filter is_pdf listed). \<exists>rec.
            extract_report_data3 open_doc (path_join folder (filter is_pdf listed ! i)) = Inr rec \<and>
            map fst (table_row t i) = columns14 \<and>
            (keeps_strings pd \<longrightarrow>
               (\<forall>k s. map_of rec k = Some (PStr s) \<longrightarrow> map_of (table_row t i) k = Some (PStr s)) \<and>
               map_of (table_row t i) ''report_source'' = Some (PStr ''varian'') \<and>
               map_of (table_row t i) ''file_name''
                 = Some (PStr (splitext_root (basename (path_join folder (filter is_pdf listed ! i)))))))"
      by blast
    from t r have "t = df" by simp
    with rest ls o show ?thesis by (intro exI [of _ listed]) simp
  qed
  from A B show ?thesis by (rule conjI [OF _ impI])
qed

text \<open>
  C7. Batch extraction gives a table with exactly one row for each document, in the order
  of the input: for \<open>process_multiple_pdfs\<close> the input is the list of paths, for the two
  \<open>extract_from_folder\<close> it is the files of the folder whose name ends in \<open>.pdf\<close> (in any
  case of the letters), in the order in which the folder lists them. A batch function
  returns if every document can be opened (and the folder can be listed), and only then;
  for every table \<open>df\<close> that it returns, the number of rows is the number of documents,
  and row \<open>i\<close> has the fourteen columns in their order and belongs to the record extracted
  from document \<open>i\<close>, whether or not the patterns match its text. Where \<open>pandas\<close> keeps
  the strings of the records in the table, row \<open>i\<close> holds every string of that record,
  among them the constant \<open>report_source\<close> and the name of the file (\<open>file_name\<close>: the
  last component of the path, without its extension in the second and the third
  layout).
\<close>

theorem batch_extraction_rows:
  "(((\<forall>f \<in> set pdf_files. \<exists>pages. open_pdf f = Inr pages) \<longrightarrow>
       (\<exists>t. process_multiple_pdfs pd open_pdf pdf_files = Inr t)) \<and>
    (process_multiple_pdfs pd open_pdf pdf_files = Inr df \<longrightarrow>
       (\<forall>f \<in> set pdf_files. \<exists>pages. open_pdf f = Inr pages) \<and>
       nrows df = length pdf_files \<and>
       (\<forall>i < length pdf_files. \<exists>rec.
          process_one open_pdf (pdf_files ! i) = Inr rec \<and>
          map fst (table_row df i) = columns14 \<and>
          (keeps_strings pd \<longrightarrow>
             (\<forall>k s. map_of rec k = Some (PStr s) \<longrightarrow> map_of (table_row df i) k = Some (PStr s)) \<and>
             map_of (table_row df i) ''report_source'' = Some (PStr ''varian'') \<and>
             map_of (table_row df i) ''file_name'' = Some (PStr (basename (pdf_files ! i))))))) \<and>
   ((listdir folder = Inr names \<and>
     (\<forall>f \<in> set (filter is_pdf names). \<exists>pages. open_doc (path_join folder f) = Inr pages) \<longrightarrow>
       (\<exists>t. extract_from_folder2 pd listdir open_doc folder = Inr t)) \<and>
    (extract_from_folder2 pd listdir open_doc folder = Inr df' \<longrightarrow>
       (\<exists>listed. listdir folder = Inr listed \<and>
          (\<forall>f \<in> set (filter is_pdf listed). \<exists>pages. open_doc (path_join folder f) = Inr pages) \<and>
          nrows df' = length (filter is_pdf listed) \<and>
          (\<forall>i < length (filter is_pdf listed). \<exists>rec.
             extract_report_data2 open_doc (path_join folder (filter is_pdf listed ! i)) = Inr rec \<and>
             map fst (table_row df' i) = columns14 \<and>
             (keeps_strings pd \<longrightarrow>
                (\<forall>k s. map_of rec k = Some (PStr s) \<longrightarrow> map_of (table_row df' i) k = Some (PStr s)) \<and>
                map_of (table_row df' i) ''report_source'' = Some (PStr ''varian'') \<and>
                map_of (table_row df' i) ''file_name''
                  = Some (PStr (splitext_root (basename (path_join folder (filter is_pdf listed ! i)))))))))) \<and>
   ((listdir folder = Inr names \<and>
     (\<forall>f \<in> set (filter is_pdf names). \<exists>pages. open_doc (path_join folder f) = Inr pages) \<longrightarrow>
       (\<exists>t. extract_from_folder3 pd listdir open_doc folder = Inr t)) \<and>
    (extract_from_folder3 pd listdir open_doc folder = Inr df'' \<longrightarrow>
       (\<exists>listed. listdir folder = Inr listed \<and>
          (\<forall>f \<in> set (filter is_pdf listed). \<exists>pages. open_doc (path_join folder f) = Inr pages) \<and>
          nrows df'' = length (filter is_pdf listed) \<and>
          (\<forall>i < length (filter is_pdf listed). \<exists>rec.
             extract_report_data3 open_doc (path_join folder (filter is_pdf listed ! i)) = Inr rec \<and>
             map fst (table_row df'' i) = columns14 \<and>
             (keeps_strings pd \<longrightarrow>
                (\<forall>k s. map_of rec k = Some (PStr s) \<longrightarrow> map_of (table_row df'' i) k = Some (PStr s)) \<and>
                map_of (table_row df'' i) ''report_source'' = Some (PStr ''varian'') \<and>
                map_of (table_row df'' i) ''file_name''
                  = Some (PStr (splitext_root (basename (path_join folder (filter is_pdf listed ! i))))))))))"
  by (rule conjI [OF batch1 conjI [OF batch2 batch3]])

lemma sample_listing:
  "filter is_pdf [''a.pdf'', ''notes.txt'', ''B.PDF''] = [''a.pdf'', ''B.PDF'']"
  by (simp add: is_pdf_def lower_def lower_char_def lower_pairs_def suffix_to_prefix)

lemma sample_paths:
  "path_join ''/in'' ''a.pdf'' = ''/in/a.pdf''" "path_join ''/in'' ''B.PDF'' = ''/in/B.PDF''"
  "basename ''/in/a.pdf'' = ''a.pdf''" "basename ''/in/B.PDF'' = ''B.PDF''"
  "splitext_root ''a.pdf'' = ''a''" "splitext_root ''B.PDF'' = ''B''"
  by (simp_all add: path_join_def basename_def splitext_root_def suffix_to_prefix Let_def)

lemma keeps_strings_kept_columns: "keeps_strings kept_columns"
  by (simp add: keeps_strings_def kept_columns_def)

text \<open>
  C7 at two documents given as paths, the first with a work order on its first page, and
  at a folder with two documents and a file that is no document.
\<close>

theorem batch_extraction_rows_witness:
  "(\<exists>df. process_multiple_pdfs kept_columns
            (file_table [(''/in/a.pdf'', [Some ''Work Order WO-12345'', None]),
                         (''/in/B.PDF'', [Some ''nothing to find''])])
            [''/in/a.pdf'', ''/in/B.PDF''] = Inr df \<and>
      nrows df = 2 \<and>
      map fst (table_row df 0) = columns14 \<and> map fst (table_row df 1) = columns14 \<and>
      map_of (table_row df 0) ''work_order_id'' = Some (PStr ''WO-12345'') \<and>
      map_of (table_row df 0) ''report_source'' = Some (PStr ''varian'') \<and>
      map_of (table_row df 0) ''file_name'' = Some (PStr ''a.pdf'') \<and>
      map_of (table_row df 1) ''file_name'' = Some (PStr ''B.PDF'')) \<and>
   (\<exists>df. extract_from_folder2 kept_columns
            (file_table [(''/in'', [''a.pdf'', ''notes.txt'', ''B.PDF''])])
            (file_table [(''/in/a.pdf'', [''Notification No. 777'']),
                         (''/in/B.PDF'', [''nothing to find''])])
            ''/in'' = Inr df \<and>
      nrows df = 2 \<and>
      map fst (table_row df 0) = columns14 \<and> map fst (table_row df 1) = columns14 \<and>
      map_of (table_row df 0) ''file_name'' = Some (PStr ''a'') \<and>
      map_of (table_row df 1) ''file_name'' = Some (PStr ''B'') \<and>
      map_of (table_row df 1) ''report_source'' = Some (PStr ''varian'')) \<and>
   (\<exists>df. extract_from_folder3 kept_columns
            (file_table [(''/in'', [''a.pdf'', ''notes.txt'', ''B.PDF''])])
            (file_table [(''/in/a.pdf'', [''Notification No. 777'']),
                         (''/in/B.PDF'', [''nothing to find''])])
            ''/in'' = Inr df \<and>
      nrows df = 2 \<and>
      map fst (table_row df 0) = columns14 \<and> map fst (table_row df 1) = columns14 \<and>
      map_of (table_row df 0) ''file_name'' = Some (PStr ''a'') \<and>
      map_of (table_row df 1) ''file_name'' = Some (PStr ''B'') \<and>
      map_of (table_row df 1) ''report_source'' = Some (PStr ''varian''))"
proof -
  let ?open1 = "file_table [(''/in/a.pdf'', [Some ''Work Order WO-12345'', None]),
                            (''/in/B.PDF'', [Some ''nothing to find''])]"
  let ?files = "[''/in/a.pdf'', ''/in/B.PDF'']"
  let ?names = "[''a.pdf'', ''notes.txt'', ''B.PDF'']"
  let ?ls = "file_table [(''/in'', ?names)]"
  let ?open = "file_table [(''/in/a.pdf'', [''Notification No. 777'']),
                           (''/in/B.PDF'', [''nothing to find''])]"
  note T = batch_extraction_rows [where pd = kept_columns and pdf_files = ?files
      and open_pdf = ?open1 and listdir = ?ls and folder = "''/in''"
      and names = ?names and open_doc = ?open]
  note ks = keeps_strings_kept_columns
  have o1: "\<forall>f \<in> set ?files. \<exists>pages. ?open1 f = Inr pages"
    by (simp add: file_table_def)
  have ls: "?ls ''/in'' = Inr ?names"
    by (simp add: file_table_def)
  have o2: "\<forall>f \<in> set (filter is_pdf ?names). \<exists>pages. ?open (path_join ''/in'' f) = Inr pages"
    unfolding sample_listing by (simp add: sample_paths file_table_def)
  have wo: "map_of (batch_row1 ''/in/a.pdf'' [Some ''Work Order WO-12345'', None]) ''work_order_id''
      = Some (PStr ''WO-12345'')"
    by (simp add: batch_row1_def record1_def fields1_def page_texts1_def truthy_def eval_defs)
  from T [THEN conjunct1, THEN conjunct1, THEN mp, OF o1]
  obtain df where df: "process_multiple_pdfs kept_columns ?open1 ?files = Inr df" by blast
  from T [where df = df, THEN conjunct1, THEN conjunct2, THEN mp, OF df]
  have n: "nrows df = length ?files"
    and rows: "\<forall>i < length ?files. \<exists>rec.
            process_one ?open1 (?files ! i) = Inr rec \<and>
            map fst (table_row df i) = columns14 \<and>
            (keeps_strings kept_columns \<longrightarrow>
               (\<forall>k s. map_of rec k = Some (PStr s) \<longrightarrow> map_of (table_row df i) k = Some (PStr s)) \<and>
               map_of (table_row df i) ''report_source'' = Some (PStr ''varian'') \<and>
               map_of (table_row df i) ''file_name'' = Some (PStr (basename (?files ! i))))"
    by blast+
  from rows [rule_format, of 0] ks obtain rec0 where r0:
    "process_one ?open1 ''/in/a.pdf'' = Inr rec0" "map fst (table_row df 0) = columns14"
    "\<forall>k s. map_of rec0 k = Some (PStr s) \<longrightarrow> map_of (table_row df 0) k = Some (PStr s)"
    "map_of (table_row df 0) ''report_source'' = Some (PStr ''varian'')"
    "map_of (table_row df 0) ''file_name'' = Some (PStr ''a.pdf'')"
    by (auto simp: sample_paths)
  from rows [rule_format, of 1] ks have r1:
    "map fst (table_row df 1) = columns14"
    "map_of (table_row df 1) ''file_name'' = Some (PStr ''B.PDF'')"
    by (auto simp: sample_paths)
  have "process_one ?open1 ''/in/a.pdf'' = Inr (batch_row1 ''/in/a.pdf'' [Some ''Work Order WO-12345'', None])"
    by (rule process_one_eq) (simp add: file_table_def)
  with r0(1) wo have "map_of rec0 ''work_order_id'' = Some (PStr ''WO-12345'')" by simp
  with r0(3) have w0: "map_of (table_row df 0) ''work_order_id'' = Some (PStr ''WO-12345'')" by blast
  from df n r0(2,4,5) r1 w0
  have A: "\<exists>df. process_multiple_pdfs kept_columns ?open1 ?files = Inr df \<and>
      nrows df = 2 \<and>
      map fst (table_row df 0) = columns14 \<and> map fst (table_row df 1) = columns14 \<and>
      map_of (table_row df 0) ''work_order_id'' = Some (PStr ''WO-12345'') \<and>
      map_of (table_row df 0) ''report_source'' = Some (PStr ''varian'') \<and>
      map_of (table_row df 0) ''file_name'' = Some (PStr ''a.pdf'') \<and>
      map_of (table_row df 1) ''file_name'' = Some (PStr ''B.PDF'')"
    by (intro exI [of _ df]) simp
  from T [THEN conjunct2, THEN conjunct1, THEN conjunct1, THEN mp, OF conjI [OF ls o2]]
  obtain tb where tb: "extract_from_folder2 kept_columns ?ls ?open ''/in'' = Inr tb" by blast
  from T [where df' = tb, THEN conjunct2, THEN conjunct1, THEN conjunct2, THEN mp, OF tb] ls
  have n2: "nrows tb = length (filter is_pdf ?names)"
    and rows2: "\<forall>i < length (filter is_pdf ?names). \<exists>rec.
            extract_report_data2 ?open (path_join ''/in'' (filter is_pdf ?names ! i)) = Inr rec \<and>
            map fst (table_row tb i) = columns14 \<and>
            (keeps_strings kept_columns \<longrightarrow>
               (\<forall>k s. map_of rec k = Some (PStr s) \<longrightarrow> map_of (table_row tb i) k = Some (PStr s)) \<and>
               map_of (table_row tb i) ''report_source'' = Some (PStr ''varian'') \<and>
               map_of (table_row tb i) ''file_name''
                 = Some (PStr (splitext_root (basename (path_join ''/in''
                      (filter is_pdf ?names ! i))))))"
    by auto
  from rows2 [unfolded sample_listing, rule_format, of 0]
    rows2 [unfolded sample_listing, rule_format, of 1] tb n2 [unfolded sample_listing] ks
  have B: "\<exists>df. extract_from_folder2 kept_columns ?ls ?open ''/in'' = Inr df \<and>
      nrows df = 2 \<and>
      map fst (table_row df 0) = columns14 \<and> map fst (table_row df 1) = columns14 \<and>
      map_of (table_row df 0) ''file_name'' = Some (PStr ''a'') \<and>
      map_of (table_row df 1) ''file_name'' = Some (PStr ''B'') \<and>
      map_of (table_row df 1) ''report_source'' = Some (PStr ''varian'')"
    by (intro exI [of _ tb]) (auto simp: sample_paths)
  from T [THEN conjunct2, THEN conjunct2, THEN conjunct1, THEN mp, OF conjI [OF ls o2]]
  obtain tc where tc: "extract_from_folder3 kept_columns ?ls ?open ''/in'' = Inr tc" by blast
  from T [where df'' = tc, THEN conjunct2, THEN conjunct2, THEN conjunct2, THEN mp, OF tc] ls
  have n3: "nrows tc = length (filter is_pdf ?names)"
    and rows3: "\<forall>i < length (filter is_pdf ?names). \<exists>rec.
            extract_report_data3 ?open (path_join ''/in'' (filter is_pdf ?names ! i)) = Inr rec \<and>
            map fst (table_row tc i) = columns14 \<and>
            (keeps_strings kept_columns \<longrightarrow>
               (\<forall>k s. map_of rec k = Some (PStr s) \<longrightarrow> map_of (table_row tc i) k = Some (PStr s)) \<and>
               map_of (table_row tc i) ''report_source'' = Some (PStr ''varian'') \<and>
               map_of (table_row tc i) ''file_name''
                 = Some (PStr (splitext_root (basename (path_join ''/in''
                      (filter is_pdf ?names ! i))))))"
    by auto
  from rows3 [unfolded sample_listing, rule_format, of 0]
    rows3 [unfolded sample_listing, rule_format, of 1] tc n3 [unfolded sample_listing] ks
  have C: "\<exists>df. extract_from_folder3 kept_columns ?ls ?open ''/in'' = Inr df \<and>
      nrows df = 2 \<and>
      map fst (table_row df 0) = columns14 \<and> map fst (table_row df 1) = columns14 \<and>
      map_of (table_row df 0) ''file_name'' = Some (PStr ''a'') \<and>
      map_of (table_row df 1) ''file_name'' = Some (PStr ''B'') \<and>
      map_of (table_row df 1) ''report_source'' = Some (PStr ''varian'')"
    by (intro exI [of _ tc]) (auto simp: sample_paths)
  from A B C show ?thesis by (intro conjI)
qed
end
